theory Spec2Isabelle
  imports Main "HOL-Library.AList"
begin

section \<open>Data model of \<open>parser.py\<close>\<close>

text \<open>
  The exceptions the parser can raise: failed \<open>assert\<close> statements, \<open>set.remove\<close> of an
  absent element, a method missing on a built-in object, a tuple read out of range, a
  global name that is not bound, and a call with the wrong number of arguments.
\<close>

datatype error = AssertionError | KeyError | AttributeError | IndexError | NameError | TypeError

text \<open>
  A chart key is the string \<open>'START'\<close> or an item. A production is a tuple of antecedent
  items, kept as the list of its components.
\<close>

datatype 'i key = START | Item (the_item: 'i)

type_synonym 'i production = "'i list"

text \<open>
  A Python \<open>set\<close> is kept as the list of its elements without repetition, in the order of
  insertion; \<open>set.add\<close> leaves the list alone when the element is there already.
  A \<open>defaultdict(set)\<close> is an association list whose missing keys read as the empty set.
\<close>

definition set_add :: "'a \<Rightarrow> 'a list \<Rightarrow> 'a list" where
  "set_add x xs = (if x \<in> set xs then xs else xs @ [x])"

type_synonym ('k, 'v) ddict = "('k \<times> 'v list) list"

definition dd_get :: "('k, 'v) ddict \<Rightarrow> 'k \<Rightarrow> 'v list" where
  "dd_get d k = (case map_of d k of None \<Rightarrow> [] | Some vs \<Rightarrow> vs)"

definition dd_add :: "('k, 'v) ddict \<Rightarrow> 'k \<Rightarrow> 'v \<Rightarrow> ('k, 'v) ddict" where
  "dd_add d k v = AList.update k (set_add v (dd_get d k)) d"

type_synonym 'i chart = "('i key, 'i production) ddict"

text \<open>
  The three item classes of \<open>parse\<close>, lines 68 to 73.
\<close>

datatype axiom_class = CfgHergItem | CfgItem | HergItem

text \<open>
  The modules \<open>item\<close>, \<open>rule\<close> and \<open>lib.hgraph.hgraph\<close> are imported by \<open>parser.py\<close> and not
  part of it, so the grammar, the attributes and methods of the item classes and the
  graph class are parameters of the model: one field for each attribute or method that
  \<open>parser.py\<close> reads or calls. Items of the three classes share the type \<open>'i\<close>; the
  methods \<open>shift\<close> and \<open>can_shift\<close>, which take a word and an index on a \<open>CfgItem\<close> and an
  edge on a \<open>HergItem\<close>, are one field per class. The field \<open>set_pop\<close> is \<open>set.pop()\<close> on a
  set of items, which removes and returns an arbitrary element.
\<close>

record ('i, 'r, 'w, 'e, 'l, 'g, 'n) env =
  grammar_values :: "'r list"
  start_symbol :: string
  graph_nonzero :: "'g \<Rightarrow> bool"
  triples :: "'g \<Rightarrow> 'e list"
  edge_label :: "'e \<Rightarrow> 'l"
  axiom :: "axiom_class \<Rightarrow> 'r \<Rightarrow> 'i"
  closed :: "'i \<Rightarrow> bool"
  rule_symbol :: "'i \<Rightarrow> string"
  outside_is_nonterminal :: "'i \<Rightarrow> bool"
  outside_symbol :: "'i \<Rightarrow> string"
  outside_nt_index :: "'i \<Rightarrow> 'n"
  can_complete :: "'i \<Rightarrow> 'i \<Rightarrow> bool"
  complete :: "'i \<Rightarrow> 'i \<Rightarrow> 'i"
  outside_word_is_nonterminal :: "'i \<Rightarrow> bool"
  outside_edge_is_nonterminal :: "'i \<Rightarrow> bool"
  outside_word :: "'i \<Rightarrow> 'w"
  outside_edge :: "'i \<Rightarrow> 'l"
  can_shift_word :: "'i \<Rightarrow> 'w \<Rightarrow> nat \<Rightarrow> bool"
  shift_word :: "'i \<Rightarrow> 'w \<Rightarrow> nat \<Rightarrow> 'i"
  can_shift_edge :: "'i \<Rightarrow> 'e \<Rightarrow> bool"
  shift_edge :: "'i \<Rightarrow> 'e \<Rightarrow> 'i"
  cfg_can_shift :: "'i \<Rightarrow> 'w \<Rightarrow> nat \<Rightarrow> bool"
  cfg_shift :: "'i \<Rightarrow> 'w \<Rightarrow> nat \<Rightarrow> 'i"
  herg_can_shift :: "'i \<Rightarrow> 'e \<Rightarrow> bool"
  herg_shift :: "'i \<Rightarrow> 'e \<Rightarrow> 'i"
  item_i :: "'i \<Rightarrow> int"
  item_j :: "'i \<Rightarrow> int"
  shifted :: "'i \<Rightarrow> 'e list"
  cfg_item :: "'i \<Rightarrow> 'i"
  herg_item :: "'i \<Rightarrow> 'i"
  set_pop :: "'i list \<Rightarrow> 'i"

text \<open>
  The truth value Python gives to the arguments of \<open>parse\<close>: \<open>None\<close> and the empty
  sequence are false; a graph object is as true as its class says.
\<close>

definition truthy_string :: "'w list option \<Rightarrow> bool" where
  "truthy_string string = (case string of None \<Rightarrow> False | Some ws \<Rightarrow> ws \<noteq> [])"

definition truthy_graph :: "('i, 'r, 'w, 'e, 'l, 'g, 'n) env \<Rightarrow> 'g option \<Rightarrow> bool" where
  "truthy_graph env graph = (case graph of None \<Rightarrow> False | Some g \<Rightarrow> graph_nonzero env g)"

section \<open>The agenda engine: \<open>Parser.parse\<close>\<close>

text \<open>
  The working set of one call of \<open>parse\<close>. The field \<open>evaluated\<close> is not in the source: it
  lists, in order, the pairs on which \<open>can_complete\<close> has been called, and no branch
  reads it.
\<close>

record 'i engine =
  chart :: "'i chart"
  queue :: "'i list"
  pending :: "'i list"
  attempted :: "('i \<times> 'i) list"
  visited :: "'i list"
  nonterminal_lookup :: "(string, 'i) ddict"
  reverse_lookup :: "(string, 'i) ddict"
  success :: bool
  evaluated :: "('i \<times> 'i) list"

definition axiom_class_of ::
  "('i, 'r, 'w, 'e, 'l, 'g, 'n) env \<Rightarrow> 'w list option \<Rightarrow> 'g option \<Rightarrow> axiom_class" where
  "axiom_class_of env string graph =
     (if truthy_string string \<and> truthy_graph env graph then CfgHergItem
      else if truthy_string string then CfgItem
      else HergItem)"

definition string_size :: "'w list option \<Rightarrow> int" where
  "string_size string = (if truthy_string string then int (length (the string)) else - 1)"

definition graph_size :: "('i, 'r, 'w, 'e, 'l, 'g, 'n) env \<Rightarrow> 'g option \<Rightarrow> int" where
  "graph_size env graph =
     (if truthy_graph env graph then int (length (triples env (the graph))) else - 1)"

definition word_terminal_lookup :: "'w list option \<Rightarrow> ('w, nat) ddict" where
  "word_terminal_lookup string =
     (if truthy_string string
      then fold (\<lambda>i d. dd_add d (the string ! i) i) [0..<length (the string)] []
      else [])"

definition edge_terminal_lookup ::
  "('i, 'r, 'w, 'e, 'l, 'g, 'n) env \<Rightarrow> 'g option \<Rightarrow> ('l, 'e) ddict" where
  "edge_terminal_lookup env graph =
     (if truthy_graph env graph
      then fold (\<lambda>edge d. dd_add d (edge_label env edge) edge) (triples env (the graph)) []
      else [])"

text \<open>Lines 106 to 111: one axiom for each rule.\<close>

definition seed ::
  "('i, 'r, 'w, 'e, 'l, 'g, 'n) env \<Rightarrow> axiom_class \<Rightarrow> 'r \<Rightarrow> 'i engine \<Rightarrow> 'i engine" where
  "seed env cls rule st =
     (let ax = axiom env cls rule;
          st1 = st\<lparr>queue := queue st @ [ax], pending := set_add ax (pending st)\<rparr>
      in if outside_is_nonterminal env ax
         then st1\<lparr>reverse_lookup := dd_add (reverse_lookup st1) (outside_symbol env ax) ax\<rparr>
         else st1)"

definition initial :: "'i engine" where
  "initial = \<lparr>chart = [], queue = [], pending = [], attempted = [], visited = [],
     nonterminal_lookup = [], reverse_lookup = [], success = False, evaluated = []\<rparr>"

definition seeded ::
  "('i, 'r, 'w, 'e, 'l, 'g, 'n) env \<Rightarrow> 'w list option \<Rightarrow> 'g option \<Rightarrow> 'i engine" where
  "seeded env string graph =
     fold (seed env (axiom_class_of env string graph)) (grammar_values env) initial"

text \<open>\<open>successful_parse\<close>, lines 202 to 220.\<close>

definition successful_parse ::
  "('i, 'r, 'w, 'e, 'l, 'g, 'n) env \<Rightarrow> 'w list option \<Rightarrow> 'g option \<Rightarrow> 'i \<Rightarrow> int \<Rightarrow> int \<Rightarrow> bool"
  where
  "successful_parse env string graph item ssize gsize =
     (if start_symbol env \<noteq> rule_symbol env item then False
      else if truthy_string string \<and> truthy_graph env graph then
        (item_j env (cfg_item env item) - item_i env (cfg_item env item) = ssize) \<and>
        (int (length (shifted env (herg_item env item))) = gsize)
      else if truthy_string string then item_j env item - item_i env item = ssize
      else int (length (shifted env item)) = gsize)"

text \<open>Lines 161 to 163 and 190 to 192: a new item joins the agenda once.\<close>

definition enqueue :: "'i \<Rightarrow> 'i engine \<Rightarrow> 'i engine" where
  "enqueue nitem st =
     (if nitem \<notin> set (pending st) \<and> nitem \<notin> set (visited st)
      then st\<lparr>queue := queue st @ [nitem], pending := set_add nitem (pending st)\<rparr>
      else st)"

text \<open>Lines 139 to 142: waking up one item that waits for the symbol just closed.\<close>

definition wake_up :: "'i \<Rightarrow> 'i engine \<Rightarrow> 'i engine" where
  "wake_up ritem st =
     (if ritem \<notin> set (pending st)
      then st\<lparr>queue := queue st @ [ritem], pending := set_add ritem (pending st)\<rparr>
      else st)"

text \<open>Lines 150 to 163: the body of the loop over the completed candidates.\<close>

definition try_complete ::
  "('i, 'r, 'w, 'e, 'l, 'g, 'n) env \<Rightarrow> 'i \<Rightarrow> 'i \<Rightarrow> 'i engine \<Rightarrow> 'i engine" where
  "try_complete env item oitem st =
     (if (item, oitem) \<in> set (attempted st) then st
      else
        let st1 = st\<lparr>attempted := set_add (item, oitem) (attempted st),
                     evaluated := evaluated st @ [(item, oitem)]\<rparr>
        in if \<not> can_complete env item oitem then st1
           else
             let nitem = complete env item oitem
             in enqueue nitem
                  (st1\<lparr>chart := dd_add (chart st1) (Item nitem) [item, oitem]\<rparr>))"

text \<open>Lines 167 to 185: the items one shift gives, or the assertion that fails.\<close>

definition shift_items ::
  "('i, 'r, 'w, 'e, 'l, 'g, 'n) env \<Rightarrow> 'w list option \<Rightarrow> 'g option \<Rightarrow> 'i \<Rightarrow> error + 'i list"
  where
  "shift_items env string graph item =
     (if truthy_string string \<and> truthy_graph env graph then
        (if \<not> outside_word_is_nonterminal env item then
           Inr (map (shift_word env item (outside_word env item))
                  (filter (can_shift_word env item (outside_word env item))
                     (dd_get (word_terminal_lookup string) (outside_word env item))))
         else if outside_edge_is_nonterminal env item then Inl AssertionError
         else
           Inr (map (shift_edge env item)
                  (filter (can_shift_edge env item)
                     (dd_get (edge_terminal_lookup env graph) (outside_edge env item)))))
      else if truthy_string string then
        Inr (map (cfg_shift env item (outside_word env item))
               (filter (cfg_can_shift env item (outside_word env item))
                  (dd_get (word_terminal_lookup string) (outside_word env item))))
      else if \<not> truthy_graph env graph then Inl AssertionError
      else
        Inr (map (herg_shift env item)
               (filter (herg_can_shift env item)
                  (dd_get (edge_terminal_lookup env graph) (outside_edge env item)))))"

text \<open>Lines 187 to 192.\<close>

definition add_shifted :: "'i \<Rightarrow> 'i \<Rightarrow> 'i engine \<Rightarrow> 'i engine" where
  "add_shifted item nitem st =
     enqueue nitem (st\<lparr>chart := dd_add (chart st) (Item nitem) [item]\<rparr>)"

text \<open>
  Lines 118 to 192: one turn of the \<open>while queue\<close> loop, on a state whose queue is not
  empty.
\<close>

definition step ::
  "('i, 'r, 'w, 'e, 'l, 'g, 'n) env \<Rightarrow> 'w list option \<Rightarrow> 'g option \<Rightarrow> 'i engine
     \<Rightarrow> error + 'i engine" where
  "step env string graph st =
     (let item = hd (queue st)
      in if item \<notin> set (pending st) then Inl KeyError
         else
           let st1 = st\<lparr>queue := tl (queue st),
                        pending := removeAll item (pending st),
                        visited := set_add item (visited st)\<rparr>
           in if closed env item then
                let st2 =
                      (if successful_parse env string graph item
                            (string_size string) (graph_size env graph)
                       then st1\<lparr>chart := dd_add (chart st1) START [item], success := True\<rparr>
                       else st1);
                    st3 = st2\<lparr>nonterminal_lookup :=
                            dd_add (nonterminal_lookup st2) (rule_symbol env item) item\<rparr>
                in Inr (fold wake_up (dd_get (reverse_lookup st3) (rule_symbol env item)) st3)
              else if outside_is_nonterminal env item then
                let st2 = st1\<lparr>reverse_lookup :=
                            dd_add (reverse_lookup st1) (outside_symbol env item) item\<rparr>
                in Inr (fold (try_complete env item)
                          (dd_get (nonterminal_lookup st2) (outside_symbol env item)) st2)
              else
                (case shift_items env string graph item of
                   Inl e \<Rightarrow> Inl e
                 | Inr new_items \<Rightarrow> Inr (fold (add_shifted item) new_items st1)))"

text \<open>
  Lines 117 to 200. The loop ends when the queue is empty or an exception leaves it; a
  run that never ends has the value \<open>None\<close>.
\<close>

partial_function (option) agenda ::
  "('i, 'r, 'w, 'e, 'l, 'g, 'n) env \<Rightarrow> 'w list option \<Rightarrow> 'g option \<Rightarrow> 'i engine
     \<Rightarrow> (error + 'i engine) option" where
  "agenda env string graph st =
     (if queue st = [] then Some (Inr st)
      else case step env string graph st of
             Inl e \<Rightarrow> Some (Inl e)
           | Inr st' \<Rightarrow> agenda env string graph st')"

declare agenda.simps [code]

definition parse_state ::
  "('i, 'r, 'w, 'e, 'l, 'g, 'n) env \<Rightarrow> 'w list option \<Rightarrow> 'g option
     \<Rightarrow> (error + 'i engine) option" where
  "parse_state env string graph = agenda env string graph (seeded env string graph)"

definition parse ::
  "('i, 'r, 'w, 'e, 'l, 'g, 'n) env \<Rightarrow> 'w list option \<Rightarrow> 'g option
     \<Rightarrow> (error + 'i chart) option" where
  "parse env string graph = map_option (map_sum id chart) (parse_state env string graph)"

section \<open>Forest extraction: \<open>cky_chart\<close>\<close>

text \<open>
  The keys of \<open>real_productions\<close>: the string \<open>'START'\<close>, or the pair of the outside
  symbol and the slot index of an item. The pruned chart maps a key of the raw chart to
  its \<open>real_productions\<close>; \<open>Chart\<close> is a class of the module \<open>item\<close> and is taken to be a
  dictionary.
\<close>

datatype 'n label = StartLabel | SlotLabel string 'n

type_synonym ('i, 'n) real_productions = "('n label \<times> 'i list) list"

type_synonym ('i, 'n) forest = "('i key \<times> ('i, 'n) real_productions) list"

text \<open>\<open>set(...)\<close> of a sequence.\<close>

definition set_of :: "'a list \<Rightarrow> 'a list" where
  "set_of xs = fold set_add xs []"

text \<open>
  Lines 232 to 241. The stack is a Python list: \<open>pop\<close> takes the last element and
  \<open>append\<close> adds one at the end.
\<close>

partial_function (option) visit ::
  "'i chart \<Rightarrow> 'i key list \<Rightarrow> 'i key list \<Rightarrow> 'i key list option" where
  "visit raw_chart stack visit_items =
     (if stack = [] then Some visit_items
      else if last stack \<in> set visit_items then visit raw_chart (butlast stack) visit_items
      else visit raw_chart (butlast stack @ map Item (concat (dd_get raw_chart (last stack))))
             (set_add (last stack) visit_items))"

declare visit.simps [code]

text \<open>
  Lines 253 to 292: the walk down the chain of one item. \<open>real_productions\<close> is a
  dictionary, which has no method \<open>append\<close>: line 268 raises on the first antecedent.
  Line 273 reads the first component of every production before line 280 compares the
  lengths, so an empty production raises there.
\<close>

partial_function (option) walk ::
  "('i, 'r, 'w, 'e, 'l, 'g, 'n) env \<Rightarrow> 'i chart \<Rightarrow> 'i key \<Rightarrow> ('i, 'n) real_productions
     \<Rightarrow> (error + ('i, 'n) real_productions) option" where
  "walk env raw_chart pitem real_productions =
     (if length (dd_get raw_chart pitem) = 0 then Some (Inr real_productions)
      else if pitem = START then
        Some (Inr (AList.update StartLabel (concat (dd_get raw_chart pitem)) real_productions))
      else if rule_symbol env (the_item pitem) = ''PARTIAL'' then
        (if length (dd_get raw_chart pitem) \<noteq> 1 then Some (Inl AssertionError)
         else if hd (dd_get raw_chart pitem) = [] then Some (Inr real_productions)
         else Some (Inl AttributeError))
      else if [] \<in> set (dd_get raw_chart pitem) then Some (Inl IndexError)
      else if length (set_of (map length (dd_get raw_chart pitem))) \<noteq> 1 then
        Some (Inl AssertionError)
      else if hd (set_of (map length (dd_get raw_chart pitem))) \<noteq> 1 then
        (if hd (set_of (map length (dd_get raw_chart pitem))) \<noteq> 2 then Some (Inl AssertionError)
         else
           walk env raw_chart (Item (set_pop env (set_of (map hd (dd_get raw_chart pitem)))))
             (AList.update
                (SlotLabel (outside_symbol env (hd (hd (dd_get raw_chart pitem))))
                   (outside_nt_index env (hd (hd (dd_get raw_chart pitem)))))
                (map (\<lambda>x. x ! 1) (dd_get raw_chart pitem))
                real_productions))
      else
        walk env raw_chart (Item (set_pop env (set_of (map hd (dd_get raw_chart pitem)))))
          real_productions)"

declare walk.simps [code]

text \<open>Lines 244 to 299: the loop over the items visited.\<close>

fun regroup ::
  "('i, 'r, 'w, 'e, 'l, 'g, 'n) env \<Rightarrow> 'i chart \<Rightarrow> 'i key list \<Rightarrow> ('i, 'n) forest
     \<Rightarrow> (error + ('i, 'n) forest) option" where
  "regroup env raw_chart [] cky = Some (Inr cky)"
| "regroup env raw_chart (item # items) cky =
     (if \<not> (item = START \<or> closed env (the_item item)) then regroup env raw_chart items cky
      else case walk env raw_chart item [] of
             None \<Rightarrow> None
           | Some (Inl e) \<Rightarrow> Some (Inl e)
           | Some (Inr real_productions) \<Rightarrow>
               regroup env raw_chart items
                 (if real_productions \<noteq> [] then AList.update item real_productions cky
                  else cky))"

definition cky_chart ::
  "('i, 'r, 'w, 'e, 'l, 'g, 'n) env \<Rightarrow> 'i chart \<Rightarrow> (error + ('i, 'n) forest) option" where
  "cky_chart env raw_chart =
     (case visit raw_chart [START] [] of
        None \<Rightarrow> None
      | Some visit_items \<Rightarrow> regroup env raw_chart visit_items [])"

section \<open>The generators\<close>

text \<open>
  What a generator gives when it is read to its end: the values it yields, and how it
  stops: at the end of its input, with an exception, or never.
\<close>

datatype ending = Exhausted | Raised error | Diverged

text \<open>Lines 26 to 36.\<close>

fun parse_graphs ::
  "('i, 'r, 'w, 'e, 'l, 'g, 'n) env \<Rightarrow> 'g list \<Rightarrow> ('i, 'n) forest list \<times> ending" where
  "parse_graphs env [] = ([], Exhausted)"
| "parse_graphs env (graph # graph_iterator) =
     (case parse env None (Some graph) of
        None \<Rightarrow> ([], Diverged)
      | Some (Inl e) \<Rightarrow> ([], Raised e)
      | Some (Inr raw_chart) \<Rightarrow>
          (case cky_chart env raw_chart of
             None \<Rightarrow> ([], Diverged)
           | Some (Inl e) \<Rightarrow> ([], Raised e)
           | Some (Inr forest) \<Rightarrow>
               (case parse_graphs env graph_iterator of
                  (forests, e) \<Rightarrow> (forest # forests, e))))"

text \<open>
  Lines 38 to 47. The name \<open>make_string_filter_cache\<close> is bound nowhere in the module
  (its definition, lines 225 and 226, is a comment), so line 43 raises when the generator
  is first read. Line 45 calls \<open>parse\<close>, which takes a string and a graph, with a third
  argument.
\<close>

definition make_string_filter_cache :: "error + unit" where
  "make_string_filter_cache = Inl NameError"

definition parse_strings ::
  "('i, 'r, 'w, 'e, 'l, 'g, 'n) env \<Rightarrow> 'w list list \<Rightarrow> ('i, 'n) forest list \<times> ending" where
  "parse_strings env string_iterator =
     (case make_string_filter_cache of
        Inl e \<Rightarrow> ([], Raised e)
      | Inr filter_cache \<Rightarrow>
          (case string_iterator of
             [] \<Rightarrow> ([], Exhausted)
           | string # strings \<Rightarrow> ([], Raised TypeError)))"

section \<open>A context-free instance of the item algebra\<close>

text \<open>
  A small left-to-right item algebra for context-free rules, for running the parser on
  concrete grammars: an item is a rule number, the number of right-hand-side elements
  matched, and the span \<open>i\<close>, \<open>j\<close>.
\<close>

datatype sym = Word string | Nonterminal string

type_synonym cfg_rule = "string \<times> sym list"

type_synonym cfg = "nat \<times> nat \<times> int \<times> int"

definition rhs_at :: "cfg_rule list \<Rightarrow> cfg \<Rightarrow> sym option" where
  "rhs_at rules it =
     (case it of (r, d, i, j) \<Rightarrow>
        if d < length (snd (rules ! r)) then Some (snd (rules ! r) ! d) else None)"

definition sym_name :: "sym option \<Rightarrow> string" where
  "sym_name s = (case s of Some (Word w) \<Rightarrow> w | Some (Nonterminal n) \<Rightarrow> n | None \<Rightarrow> [])"

definition is_nonterminal :: "sym option \<Rightarrow> bool" where
  "is_nonterminal s = (case s of Some (Nonterminal n) \<Rightarrow> True | _ \<Rightarrow> False)"

definition cfg_extend :: "cfg \<Rightarrow> int \<Rightarrow> int \<Rightarrow> cfg" where
  "cfg_extend it i' j' = (case it of (r, d, i, j) \<Rightarrow> (r, Suc d, if d = 0 then i' else i, j'))"

definition cfg_adjacent :: "cfg \<Rightarrow> int \<Rightarrow> bool" where
  "cfg_adjacent it i' = (case it of (r, d, i, j) \<Rightarrow> d = 0 \<or> i' = j)"

definition cfg_env ::
  "cfg_rule list \<Rightarrow> string \<Rightarrow> (cfg, nat, string, unit, unit, unit, nat) env" where
  "cfg_env rules start =
     \<lparr>grammar_values = [0..<length rules],
      start_symbol = start,
      graph_nonzero = (\<lambda>g. False),
      triples = (\<lambda>g. []),
      edge_label = (\<lambda>e. ()),
      axiom = (\<lambda>cls r. (r, 0, 0, 0)),
      closed = (\<lambda>it. rhs_at rules it = None),
      rule_symbol = (\<lambda>it. fst (rules ! fst it)),
      outside_is_nonterminal = (\<lambda>it. is_nonterminal (rhs_at rules it)),
      outside_symbol = (\<lambda>it. sym_name (rhs_at rules it)),
      outside_nt_index = (\<lambda>it. fst (snd it)),
      can_complete = (\<lambda>it oitem. rhs_at rules oitem = None \<and>
         fst (rules ! fst oitem) = sym_name (rhs_at rules it) \<and>
         cfg_adjacent it (fst (snd (snd oitem)))),
      complete = (\<lambda>it oitem. cfg_extend it (fst (snd (snd oitem))) (snd (snd (snd oitem)))),
      outside_word_is_nonterminal = (\<lambda>it. is_nonterminal (rhs_at rules it)),
      outside_edge_is_nonterminal = (\<lambda>it. False),
      outside_word = (\<lambda>it. sym_name (rhs_at rules it)),
      outside_edge = (\<lambda>it. ()),
      can_shift_word = (\<lambda>it w index. cfg_adjacent it (int index)),
      shift_word = (\<lambda>it w index. cfg_extend it (int index) (int index + 1)),
      can_shift_edge = (\<lambda>it e. False),
      shift_edge = (\<lambda>it e. it),
      cfg_can_shift = (\<lambda>it w index. cfg_adjacent it (int index)),
      cfg_shift = (\<lambda>it w index. cfg_extend it (int index) (int index + 1)),
      herg_can_shift = (\<lambda>it e. False),
      herg_shift = (\<lambda>it e. it),
      item_i = (\<lambda>it. fst (snd (snd it))),
      item_j = (\<lambda>it. snd (snd (snd it))),
      shifted = (\<lambda>it. []),
      cfg_item = (\<lambda>it. it),
      herg_item = (\<lambda>it. it),
      set_pop = hd\<rparr>"

section \<open>A synchronous instance of the item algebra\<close>

text \<open>
  A table of five items for running the parser on a string and a graph together, for
  the synchronous rules \<open>S \<rightarrow> a A\<close> paired with \<open>S \<rightarrow> e A\<close>, where \<open>e\<close> is an edge of label
  \<open>7\<close>, and \<open>A \<rightarrow> \<epsilon>\<close>. Item \<open>0\<close> is the axiom of \<open>S\<close>, which shifts the word \<open>a\<close> at
  position \<open>0\<close> and gives item \<open>1\<close>; item \<open>1\<close> has a nonterminal next on the string side and
  an edge next on the graph side, shifts the edge and gives item \<open>2\<close>; item \<open>2\<close> waits for
  \<open>A\<close> on both sides; item \<open>3\<close> is the axiom of \<open>A\<close>, closed; item \<open>4\<close> is \<open>S\<close> completed,
  closed, over one word and one edge.
\<close>

definition sync_env :: "(nat, nat, string, nat, nat, nat list, unit) env" where
  "sync_env =
     \<lparr>grammar_values = [0, 1],
      start_symbol = ''S'',
      graph_nonzero = (\<lambda>g. g \<noteq> []),
      triples = (\<lambda>g. g),
      edge_label = (\<lambda>e. e),
      axiom = (\<lambda>cls r. if r = 0 then 0 else 3),
      closed = (\<lambda>it. it = 3 \<or> it = 4),
      rule_symbol = (\<lambda>it. if it = 3 then ''A'' else ''S''),
      outside_is_nonterminal = (\<lambda>it. it = 2),
      outside_symbol = (\<lambda>it. ''A''),
      outside_nt_index = (\<lambda>it. ()),
      can_complete = (\<lambda>it oitem. it = 2 \<and> oitem = 3),
      complete = (\<lambda>it oitem. 4),
      outside_word_is_nonterminal = (\<lambda>it. it = 1 \<or> it = 2),
      outside_edge_is_nonterminal = (\<lambda>it. it = 2),
      outside_word = (\<lambda>it. ''a''),
      outside_edge = (\<lambda>it. 7),
      can_shift_word = (\<lambda>it w index. it = 0 \<and> index = 0),
      shift_word = (\<lambda>it w index. 1),
      can_shift_edge = (\<lambda>it e. it = 1),
      shift_edge = (\<lambda>it e. 2),
      cfg_can_shift = (\<lambda>it w index. False),
      cfg_shift = (\<lambda>it w index. it),
      herg_can_shift = (\<lambda>it e. False),
      herg_shift = (\<lambda>it e. it),
      item_i = (\<lambda>it. 0),
      item_j = (\<lambda>it. if it = 0 \<or> it = 3 then 0 else 1),
      shifted = (\<lambda>it. if it = 2 \<or> it = 4 then [7] else []),
      cfg_item = (\<lambda>it. it),
      herg_item = (\<lambda>it. it),
      set_pop = hd\<rparr>"


section \<open>The notions of the specification\<close>

text \<open>
  Coverage of the entire input, in the words of the goal test: for a string-only parse
  the span \<open>j - i\<close> is the length of the string, for a graph-only parse the number of
  matched edges is the number of edges of the graph, for a synchronous parse both. The
  kind of parse is read off the arguments that are given, whatever their truth value:
  a string alone, a graph alone, or both. With no argument at all there is nothing to
  cover.
\<close>

definition covers_entire_input ::
  "('i, 'r, 'w, 'e, 'l, 'g, 'n) env \<Rightarrow> 'w list option \<Rightarrow> 'g option \<Rightarrow> 'i \<Rightarrow> bool" where
  "covers_entire_input env string graph item =
     (case (string, graph) of
        (Some ws, Some g) \<Rightarrow>
          item_j env (cfg_item env item) - item_i env (cfg_item env item) = int (length ws) \<and>
          length (shifted env (herg_item env item)) = length (triples env g)
      | (Some ws, None) \<Rightarrow> item_j env item - item_i env item = int (length ws)
      | (None, Some g) \<Rightarrow> length (shifted env item) = length (triples env g)
      | (None, None) \<Rightarrow> True)"

text \<open>
  The keys reached from the goal key: the reflexive and transitive closure of the
  relation between a key and the antecedents of its productions.
\<close>

definition antecedents :: "'i chart \<Rightarrow> 'i key \<Rightarrow> 'i key list" where
  "antecedents raw_chart k = map Item (concat (dd_get raw_chart k))"

definition reached :: "'i chart \<Rightarrow> 'i key set" where
  "reached raw_chart = {k. (START, k) \<in> {(a, b). b \<in> set (antecedents raw_chart a)}\<^sup>*}"

text \<open>
  The reachability pass as the specification words it: the antecedents are pushed only
  for the goal key and for the closed items reached.
\<close>

partial_function (option) visit_closed_only ::
  "('i, 'r, 'w, 'e, 'l, 'g, 'n) env \<Rightarrow> 'i chart \<Rightarrow> 'i key list \<Rightarrow> 'i key list
     \<Rightarrow> 'i key list option" where
  "visit_closed_only env raw_chart stack visit_items =
     (if stack = [] then Some visit_items
      else if last stack \<in> set visit_items
      then visit_closed_only env raw_chart (butlast stack) visit_items
      else visit_closed_only env raw_chart
             (butlast stack @
                (if last stack = START \<or> closed env (the_item (last stack))
                 then map Item (concat (dd_get raw_chart (last stack))) else []))
             (set_add (last stack) visit_items))"

declare visit_closed_only.simps [code]

section \<open>The invariant and the measure of the agenda loop\<close>

text \<open>
  The state of the loop with respect to a set \<open>U\<close> of items: the queue lists the pending
  items, each once; pending, visited and indexed items are in \<open>U\<close>; a closed item that is
  pending has not been visited; only open items wait in \<open>reverse_lookup\<close>.
\<close>

definition agenda_inv ::
  "('i, 'r, 'w, 'e, 'l, 'g, 'n) env \<Rightarrow> 'i set \<Rightarrow> 'i engine \<Rightarrow> bool" where
  "agenda_inv env U st \<longleftrightarrow>
     distinct (queue st) \<and> set (queue st) = set (pending st) \<and>
     set (pending st) \<subseteq> U \<and> set (visited st) \<subseteq> U \<and>
     (\<forall>x \<in> set (pending st). closed env x \<longrightarrow> x \<notin> set (visited st)) \<and>
     (\<forall>s. \<forall>x \<in> set (dd_get (reverse_lookup st) s). x \<in> U \<and> \<not> closed env x) \<and>
     (\<forall>s. set (dd_get (nonterminal_lookup st) s) \<subseteq> U)"

text \<open>
  A closed item leaves the agenda once, and an open item returns to it only when a
  closed item leaves: the pair of the number of closed items of \<open>U\<close> not yet visited and
  of the number of items of \<open>U\<close> never queued plus the length of the queue decreases in
  the lexicographic order at every turn.
\<close>

definition agenda_measure ::
  "('i, 'r, 'w, 'e, 'l, 'g, 'n) env \<Rightarrow> 'i set \<Rightarrow> 'i engine \<Rightarrow> nat \<times> nat" where
  "agenda_measure env U st =
     (card {c \<in> U. closed env c \<and> c \<notin> set (visited st)},
      card (U - (set (visited st) \<union> set (pending st))) + length (queue st))"

text \<open>
  The effect of lines 161 to 163 and 190 to 192, repeated: the items \<open>ns\<close>, taken from
  \<open>N\<close> and neither pending nor visited, join the queue.
\<close>

definition enqueued :: "'i set \<Rightarrow> 'i engine \<Rightarrow> 'i engine \<Rightarrow> bool" where
  "enqueued N st st' \<longleftrightarrow>
     visited st' = visited st \<and> reverse_lookup st' = reverse_lookup st \<and>
     nonterminal_lookup st' = nonterminal_lookup st \<and>
     (\<exists>ns. queue st' = queue st @ ns \<and> set (pending st') = set (pending st) \<union> set ns \<and>
           distinct ns \<and> set ns \<inter> (set (pending st) \<union> set (visited st)) = {} \<and>
           set ns \<subseteq> N)"


section \<open>Example grammars\<close>

text \<open>
  Three grammars for the context-free instance: \<open>S \<rightarrow> A x\<close>, \<open>A \<rightarrow> B\<close>, \<open>B \<rightarrow> b\<close>; the
  grammar \<open>S \<rightarrow> A A\<close>, \<open>A \<rightarrow> a\<close> of the specification's scenarios; and the single rule
  \<open>A \<rightarrow> a\<close>.
\<close>

definition g_chain :: "cfg_rule list" where
  "g_chain = [(''S'', [Nonterminal ''A'', Word ''x'']), (''A'', [Nonterminal ''B'']), (''B'', [Word ''b''])]"

definition g_pair :: "cfg_rule list" where
  "g_pair = [(''S'', [Nonterminal ''A'', Nonterminal ''A'']), (''A'', [Word ''a''])]"

definition g_word :: "cfg_rule list" where
  "g_word = [(''A'', [Word ''a''])]"

text \<open>
  The rule \<open>PARTIAL \<rightarrow> a\<close>, whose items carry the reserved symbol, and the ambiguous
  grammar \<open>S \<rightarrow> A A\<close>, \<open>A \<rightarrow> a\<close>, \<open>A \<rightarrow> a a\<close>.
\<close>

definition g_partial :: "cfg_rule list" where
  "g_partial = [(''PARTIAL'', [Word ''a''])]"

definition g_amb :: "cfg_rule list" where
  "g_amb = [(''S'', [Nonterminal ''A'', Nonterminal ''A'']), (''A'', [Word ''a'']),
     (''A'', [Word ''a'', Word ''a''])]"

section \<open>Example charts\<close>

text \<open>
  The raw charts of \<open>g_chain\<close> on \<open>b x\<close>, of \<open>g_partial\<close> on \<open>a\<close> and of \<open>g_amb\<close> on \<open>a a a\<close>.
\<close>

definition chain_chart :: "cfg chart" where
  "chain_chart =
     [(Item (2, 1, 0, 1), [[(2, 0, 0, 0)]]),
      (Item (1, 1, 0, 1), [[(1, 0, 0, 0), (2, 1, 0, 1)]]),
      (Item (0, 1, 0, 1), [[(0, 0, 0, 0), (1, 1, 0, 1)]]),
      (Item (0, 2, 0, 2), [[(0, 1, 0, 1)]]),
      (START, [[(0, 2, 0, 2)]])]"

text \<open>The raw chart of \<open>g_chain\<close> on the single word \<open>b\<close>.\<close>

definition open_chart :: "cfg chart" where
  "open_chart =
     [(Item (2, 1, 0, 1), [[(2, 0, 0, 0)]]),
      (Item (1, 1, 0, 1), [[(1, 0, 0, 0), (2, 1, 0, 1)]]),
      (Item (0, 1, 0, 1), [[(0, 0, 0, 0), (1, 1, 0, 1)]])]"

definition partial_chart :: "cfg chart" where
  "partial_chart = [(Item (0, 1, 0, 1), [[(0, 0, 0, 0)]]), (START, [[(0, 1, 0, 1)]])]"

definition amb_chart :: "cfg chart" where
  "amb_chart =
     [(Item (1, 1, 0, 1), [[(1, 0, 0, 0)]]),
      (Item (1, 1, 1, 2), [[(1, 0, 0, 0)]]),
      (Item (1, 1, 2, 3), [[(1, 0, 0, 0)]]),
      (Item (2, 1, 0, 1), [[(2, 0, 0, 0)]]),
      (Item (2, 1, 1, 2), [[(2, 0, 0, 0)]]),
      (Item (2, 1, 2, 3), [[(2, 0, 0, 0)]]),
      (Item (2, 2, 0, 2), [[(2, 1, 0, 1)]]),
      (Item (2, 2, 1, 3), [[(2, 1, 1, 2)]]),
      (Item (0, 1, 0, 1), [[(0, 0, 0, 0), (1, 1, 0, 1)]]),
      (Item (0, 1, 1, 2), [[(0, 0, 0, 0), (1, 1, 1, 2)]]),
      (Item (0, 1, 2, 3), [[(0, 0, 0, 0), (1, 1, 2, 3)]]),
      (Item (0, 2, 0, 2), [[(0, 1, 0, 1), (1, 1, 1, 2)]]),
      (Item (0, 2, 0, 3), [[(0, 1, 0, 1), (2, 2, 1, 3)], [(0, 1, 0, 2), (1, 1, 2, 3)]]),
      (Item (0, 2, 1, 3), [[(0, 1, 1, 2), (1, 1, 2, 3)]]),
      (Item (0, 1, 0, 2), [[(0, 0, 0, 0), (2, 2, 0, 2)]]),
      (Item (0, 1, 1, 3), [[(0, 0, 0, 0), (2, 2, 1, 3)]]),
      (START, [[(0, 2, 0, 3)]])]"

text \<open>
  Three charts that \<open>parse\<close> does not build: a closed item whose only production has no
  antecedent, one whose two binary productions have first antecedents with different
  slot indices, and one whose productions have one and two antecedents.
\<close>

definition empty_production_chart :: "cfg chart" where
  "empty_production_chart = [(Item (0, 1, 0, 1), [[]]), (START, [[(0, 1, 0, 1)]])]"

definition split_chart :: "cfg chart" where
  "split_chart =
     [(Item (0, 2, 0, 3), [[(0, 0, 0, 0), (1, 1, 0, 1)], [(0, 1, 0, 1), (1, 1, 2, 3)]])]"

definition mixed_chart :: "cfg chart" where
  "mixed_chart =
     [(Item (0, 1, 0, 1), [[(0, 0, 0, 0)], [(0, 0, 0, 0), (0, 0, 0, 0)]]),
      (START, [[(0, 1, 0, 1)]])]"

section \<open>Sets and dictionaries\<close>

lemma set_set_add [simp]: "set (set_add x xs) = insert x (set xs)"
  by (auto simp: set_add_def)

lemma distinct_set_add [simp]: "distinct xs \<Longrightarrow> distinct (set_add x xs)"
  by (simp add: set_add_def)

lemma dd_get_dd_add:
  "dd_get (dd_add d k v) k' = (if k' = k then set_add v (dd_get d k) else dd_get d k')"
  by (simp add: dd_get_def dd_add_def update_conv')

lemma dd_get_Nil [simp]: "dd_get [] k = []"
  by (simp add: dd_get_def)

section \<open>Fields that the steps of the loop leave alone\<close>

lemma enqueue_fields [simp]:
  "chart (enqueue n st) = chart st"
  "visited (enqueue n st) = visited st"
  "attempted (enqueue n st) = attempted st"
  "evaluated (enqueue n st) = evaluated st"
  by (simp_all add: enqueue_def)

lemma wake_up_fields [simp]:
  "chart (wake_up n st) = chart st"
  "visited (wake_up n st) = visited st"
  "attempted (wake_up n st) = attempted st"
  "evaluated (wake_up n st) = evaluated st"
  by (simp_all add: wake_up_def)

lemma fold_wake_up_fields [simp]:
  "chart (fold wake_up xs st) = chart st"
  "visited (fold wake_up xs st) = visited st"
  "attempted (fold wake_up xs st) = attempted st"
  "evaluated (fold wake_up xs st) = evaluated st"
  by (induction xs arbitrary: st) simp_all

lemma add_shifted_fields [simp]:
  "dd_get (chart (add_shifted item n st)) START = dd_get (chart st) START"
  "visited (add_shifted item n st) = visited st"
  "attempted (add_shifted item n st) = attempted st"
  "evaluated (add_shifted item n st) = evaluated st"
  by (simp_all add: add_shifted_def dd_get_dd_add)

lemma fold_add_shifted_fields [simp]:
  "dd_get (chart (fold (add_shifted item) xs st)) START = dd_get (chart st) START"
  "visited (fold (add_shifted item) xs st) = visited st"
  "attempted (fold (add_shifted item) xs st) = attempted st"
  "evaluated (fold (add_shifted item) xs st) = evaluated st"
  by (induction xs arbitrary: st) simp_all

lemma try_complete_fields [simp]:
  "dd_get (chart (try_complete env item oitem st)) START = dd_get (chart st) START"
  "visited (try_complete env item oitem st) = visited st"
  by (simp_all add: try_complete_def Let_def dd_get_dd_add)

lemma fold_try_complete_fields [simp]:
  "dd_get (chart (fold (try_complete env item) xs st)) START = dd_get (chart st) START"
  "visited (fold (try_complete env item) xs st) = visited st"
  by (induction xs arbitrary: st) simp_all

lemma try_complete_evaluated:
  assumes "distinct (evaluated st)" and "set (evaluated st) \<subseteq> set (attempted st)"
  shows "distinct (evaluated (try_complete env item oitem st))"
    and "set (evaluated (try_complete env item oitem st))
           \<subseteq> set (attempted (try_complete env item oitem st))"
  using assms by (auto simp: try_complete_def Let_def)

lemma fold_try_complete_evaluated:
  assumes "distinct (evaluated st)" and "set (evaluated st) \<subseteq> set (attempted st)"
  shows "distinct (evaluated (fold (try_complete env item) xs st)) \<and>
         set (evaluated (fold (try_complete env item) xs st))
           \<subseteq> set (attempted (fold (try_complete env item) xs st))"
  using assms
proof (induction xs arbitrary: st)
  case Nil
  then show ?case by simp
next
  case (Cons x xs)
  show ?case
    using Cons.IH [OF try_complete_evaluated [OF Cons.prems]] by simp
qed

section \<open>One turn of the agenda loop\<close>

lemma step_visited:
  assumes "step env string graph st = Inr st'"
  shows "visited st' = set_add (hd (queue st)) (visited st)"
  using assms unfolding step_def Let_def
  by (simp split: if_splits sum.splits) auto

lemma step_goal:
  assumes "step env string graph st = Inr st'"
  shows "dd_get (chart st') START =
     (if closed env (hd (queue st)) \<and>
         successful_parse env string graph (hd (queue st)) (string_size string)
           (graph_size env graph)
      then set_add [hd (queue st)] (dd_get (chart st) START)
      else dd_get (chart st) START)"
  using assms unfolding step_def Let_def
  by (simp split: if_splits sum.splits) (auto simp: dd_get_dd_add)

lemma step_evaluated:
  assumes "step env string graph st = Inr st'"
    and "distinct (evaluated st)" and "set (evaluated st) \<subseteq> set (attempted st)"
  shows "distinct (evaluated st') \<and> set (evaluated st') \<subseteq> set (attempted st')"
proof (cases "closed env (hd (queue st))")
  case True
  have "evaluated st' = evaluated st \<and> attempted st' = attempted st"
    using assms(1) True unfolding step_def Let_def
    by (simp split: if_splits) auto
  then show ?thesis using assms(2,3) by simp
next
  case open_item: False
  show ?thesis
  proof (cases "outside_is_nonterminal env (hd (queue st))")
    case True
    define st2 where "st2 = st\<lparr>queue := tl (queue st),
                 pending := removeAll (hd (queue st)) (pending st),
                 visited := set_add (hd (queue st)) (visited st),
                 reverse_lookup := dd_add (reverse_lookup st)
                    (outside_symbol env (hd (queue st))) (hd (queue st))\<rparr>"
    have ev: "distinct (evaluated st2)" "set (evaluated st2) \<subseteq> set (attempted st2)"
      using assms(2,3) by (simp_all add: st2_def)
    have "st' = fold (try_complete env (hd (queue st)))
                (dd_get (nonterminal_lookup st) (outside_symbol env (hd (queue st)))) st2"
      using assms(1) True open_item unfolding step_def Let_def st2_def
      by (simp split: if_splits)
    then show ?thesis
      using fold_try_complete_evaluated [OF ev] by simp
  next
    case False
    have "evaluated st' = evaluated st \<and> attempted st' = attempted st"
      using assms(1) False open_item unfolding step_def Let_def
      by (simp split: if_splits sum.splits) auto
    then show ?thesis using assms(2,3) by simp
  qed
qed

lemma seed_fields [simp]:
  "chart (seed env cls r st) = chart st"
  "visited (seed env cls r st) = visited st"
  "attempted (seed env cls r st) = attempted st"
  "evaluated (seed env cls r st) = evaluated st"
  by (simp_all add: seed_def Let_def)

lemma fold_seed_fields [simp]:
  "chart (fold (seed env cls) rs st) = chart st"
  "visited (fold (seed env cls) rs st) = visited st"
  "attempted (fold (seed env cls) rs st) = attempted st"
  "evaluated (fold (seed env cls) rs st) = evaluated st"
  by (induction rs arbitrary: st) simp_all

lemma seeded_fields [simp]:
  "chart (seeded env string graph) = []"
  "visited (seeded env string graph) = []"
  "attempted (seeded env string graph) = []"
  "evaluated (seeded env string graph) = []"
  by (simp_all add: seeded_def initial_def)

section \<open>Invariants of the agenda loop\<close>

lemma agenda_invariant_aux:
  assumes "agenda env0 string0 graph0 st0 = Some y0"
  shows "(\<forall>a b. P a \<longrightarrow> queue a \<noteq> [] \<longrightarrow> step env0 string0 graph0 a = Inr b \<longrightarrow> P b) \<longrightarrow>
     P st0 \<longrightarrow> (\<forall>t. y0 = Inr t \<longrightarrow> P t)"
proof (rule agenda.raw_induct [where P = "\<lambda>env string graph st y.
     (\<forall>a b. P a \<longrightarrow> queue a \<noteq> [] \<longrightarrow> step env string graph a = Inr b \<longrightarrow> P b) \<longrightarrow>
     P st \<longrightarrow> (\<forall>t. y = Inr t \<longrightarrow> P t)", OF _ assms])
  fix f env string graph st y
  assume IH: "\<And>e s g a r. f e s g a = Some r \<Longrightarrow>
      (\<forall>a' b. P a' \<longrightarrow> queue a' \<noteq> [] \<longrightarrow> step e s g a' = Inr b \<longrightarrow> P b) \<longrightarrow>
      P a \<longrightarrow> (\<forall>t. r = Inr t \<longrightarrow> P t)"
    and body: "(if queue st = [] then Some (Inr st)
      else case step env string graph st of Inl e \<Rightarrow> Some (Inl e)
           | Inr st' \<Rightarrow> f env string graph st') = Some y"
  show "(\<forall>a b. P a \<longrightarrow> queue a \<noteq> [] \<longrightarrow> step env string graph a = Inr b \<longrightarrow> P b) \<longrightarrow>
     P st \<longrightarrow> (\<forall>t. y = Inr t \<longrightarrow> P t)"
  proof (intro impI allI)
    fix t
    assume pres: "\<forall>a b. P a \<longrightarrow> queue a \<noteq> [] \<longrightarrow> step env string graph a = Inr b \<longrightarrow> P b"
      and start: "P st" and res: "y = Inr t"
    show "P t"
    proof (cases "queue st = []")
      case True
      with body res have "t = st" by simp
      with start show ?thesis by simp
    next
      case False
      show ?thesis
      proof (cases "step env string graph st")
        case (Inl e)
        with False body res show ?thesis by simp
      next
        case (Inr st1)
        with False body have run: "f env string graph st1 = Some y" by simp
        from pres start False Inr have "P st1" by simp
        with IH [OF run] pres res show ?thesis by simp
      qed
    qed
  qed
qed

lemma agenda_invariant:
  assumes "agenda env string graph st = Some (Inr st')"
    and "P st"
    and "\<And>a b. P a \<Longrightarrow> queue a \<noteq> [] \<Longrightarrow> step env string graph a = Inr b \<Longrightarrow> P b"
  shows "P st'"
proof -
  have "\<forall>a b. P a \<longrightarrow> queue a \<noteq> [] \<longrightarrow> step env string graph a = Inr b \<longrightarrow> P b"
    using assms(3) by simp
  with agenda_invariant_aux [OF assms(1), of P] assms(2)
  show ?thesis by simp
qed

lemma goal_invariant:
  assumes "parse_state env string graph = Some (Inr st)"
  shows "\<forall>p. p \<in> set (dd_get (chart st) START) \<longleftrightarrow>
           (\<exists>i. p = [i] \<and> i \<in> set (visited st) \<and> closed env i \<and>
                successful_parse env string graph i (string_size string) (graph_size env graph))"
proof (rule agenda_invariant [OF assms [unfolded parse_state_def]])
  show "\<forall>p. p \<in> set (dd_get (chart (seeded env string graph)) START) \<longleftrightarrow>
           (\<exists>i. p = [i] \<and> i \<in> set (visited (seeded env string graph)) \<and> closed env i \<and>
                successful_parse env string graph i (string_size string) (graph_size env graph))"
    by simp
next
  fix a b :: "'a engine"
  assume inv: "\<forall>p. p \<in> set (dd_get (chart a) START) \<longleftrightarrow>
           (\<exists>i. p = [i] \<and> i \<in> set (visited a) \<and> closed env i \<and>
                successful_parse env string graph i (string_size string) (graph_size env graph))"
    and st: "step env string graph a = Inr b"
  show "\<forall>p. p \<in> set (dd_get (chart b) START) \<longleftrightarrow>
           (\<exists>i. p = [i] \<and> i \<in> set (visited b) \<and> closed env i \<and>
                successful_parse env string graph i (string_size string) (graph_size env graph))"
    unfolding step_visited [OF st] step_goal [OF st] using inv by auto
qed

lemma successful_parse_covers:
  assumes "string \<noteq> Some []" and "\<forall>g. graph = Some g \<longrightarrow> graph_nonzero env g"
    and "string \<noteq> None \<or> graph \<noteq> None"
  shows "successful_parse env string graph i (string_size string) (graph_size env graph) \<longleftrightarrow>
     rule_symbol env i = start_symbol env \<and> covers_entire_input env string graph i"
  using assms
  by (cases string; cases graph)
     (auto simp: successful_parse_def covers_entire_input_def string_size_def
        graph_size_def truthy_string_def truthy_graph_def)

lemma evaluated_invariant:
  assumes "parse_state env string graph = Some (Inr st)"
  shows "distinct (evaluated st) \<and> set (evaluated st) \<subseteq> set (attempted st)"
proof (rule agenda_invariant [OF assms [unfolded parse_state_def]])
  show "distinct (evaluated (seeded env string graph)) \<and>
        set (evaluated (seeded env string graph)) \<subseteq> set (attempted (seeded env string graph))"
    by simp
next
  fix a b :: "'a engine"
  assume "distinct (evaluated a) \<and> set (evaluated a) \<subseteq> set (attempted a)"
    and "step env string graph a = Inr b"
  then show "distinct (evaluated b) \<and> set (evaluated b) \<subseteq> set (attempted b)"
    using step_evaluated by blast
qed

lemma run_chain:
  "parse_state (cfg_env g_chain ''S'') (Some [''b'', ''x'']) None =
   Some (Inr \<lparr>chart =
          [(Item (2, 1, 0, 1), [[(2, 0, 0, 0)]]),
           (Item (1, 1, 0, 1), [[(1, 0, 0, 0), (2, 1, 0, 1)]]),
           (Item (0, 1, 0, 1), [[(0, 0, 0, 0), (1, 1, 0, 1)]]),
           (Item (0, 2, 0, 2), [[(0, 1, 0, 1)]]),
           (START, [[(0, 2, 0, 2)]])],
          queue = [], pending = [],
          attempted =
            [((1, 0, 0, 0), 2, 1, 0, 1), ((0, 0, 0, 0), 1, 1, 0, 1)],
          visited =
            [(0, 0, 0, 0), (1, 0, 0, 0), (2, 0, 0, 0), (2, 1, 0, 1),
             (1, 1, 0, 1), (0, 1, 0, 1), (0, 2, 0, 2)],
          nonterminal_lookup =
            [(''B'', [(2, 1, 0, 1)]), (''A'', [(1, 1, 0, 1)]),
             (''S'', [(0, 2, 0, 2)])],
          reverse_lookup =
            [(''A'', [(0, 0, 0, 0)]), (''B'', [(1, 0, 0, 0)])],
          success = True,
          evaluated =
            [((1, 0, 0, 0), 2, 1, 0, 1), ((0, 0, 0, 0), 1, 1, 0, 1)]\<rparr>)"
  by code_simp

lemma run_pair:
  "parse_state (cfg_env g_pair ''S'') (Some [''a'', ''a'']) None =
   Some (Inr \<lparr>chart =
          [(Item (1, 1, 0, 1), [[(1, 0, 0, 0)]]),
           (Item (1, 1, 1, 2), [[(1, 0, 0, 0)]]),
           (Item (0, 1, 0, 1), [[(0, 0, 0, 0), (1, 1, 0, 1)]]),
           (Item (0, 1, 1, 2), [[(0, 0, 0, 0), (1, 1, 1, 2)]]),
           (Item (0, 2, 0, 2), [[(0, 1, 0, 1), (1, 1, 1, 2)]]),
           (START, [[(0, 2, 0, 2)]])],
          queue = [], pending = [],
          attempted =
            [((0, 0, 0, 0), 1, 1, 0, 1), ((0, 0, 0, 0), 1, 1, 1, 2),
             ((0, 1, 0, 1), 1, 1, 0, 1), ((0, 1, 0, 1), 1, 1, 1, 2),
             ((0, 1, 1, 2), 1, 1, 0, 1), ((0, 1, 1, 2), 1, 1, 1, 2)],
          visited =
            [(0, 0, 0, 0), (1, 0, 0, 0), (1, 1, 0, 1), (1, 1, 1, 2),
             (0, 1, 0, 1), (0, 1, 1, 2), (0, 2, 0, 2)],
          nonterminal_lookup =
            [(''A'', [(1, 1, 0, 1), (1, 1, 1, 2)]),
             (''S'', [(0, 2, 0, 2)])],
          reverse_lookup =
            [(''A'', [(0, 0, 0, 0), (0, 1, 0, 1), (0, 1, 1, 2)])],
          success = True,
          evaluated =
            [((0, 0, 0, 0), 1, 1, 0, 1), ((0, 0, 0, 0), 1, 1, 1, 2),
             ((0, 1, 0, 1), 1, 1, 0, 1), ((0, 1, 0, 1), 1, 1, 1, 2),
             ((0, 1, 1, 2), 1, 1, 0, 1), ((0, 1, 1, 2), 1, 1, 1, 2)]\<rparr>)"
  by code_simp

section \<open>Termination of the agenda loop\<close>

text \<open>The queue after lines 106 to 111.\<close>

lemma seed_queue:
  "queue (seed env cls r st) = queue st @ [axiom env cls r]"
  "set (pending (seed env cls r st)) = insert (axiom env cls r) (set (pending st))"
  by (simp_all add: seed_def Let_def)

lemma fold_seed_queue:
  "queue (fold (seed env cls) rs st) = queue st @ map (axiom env cls) rs \<and>
   set (pending (fold (seed env cls) rs st)) = set (pending st) \<union> set (map (axiom env cls) rs)"
  by (induction rs arbitrary: st) (auto simp: seed_queue)

lemma seeded_queue:
  assumes "distinct (map (axiom env (axiom_class_of env string graph)) (grammar_values env))"
  shows "distinct (queue (seeded env string graph)) \<and>
         set (queue (seeded env string graph)) = set (pending (seeded env string graph))"
  using assms fold_seed_queue [of env "axiom_class_of env string graph" "grammar_values env" initial]
  by (simp add: seeded_def initial_def)

lemma seed_lookups:
  "nonterminal_lookup (seed env cls r st) = nonterminal_lookup st"
  "x \<in> set (dd_get (reverse_lookup (seed env cls r st)) s) \<Longrightarrow>
     x \<in> set (dd_get (reverse_lookup st) s) \<or>
     (x = axiom env cls r \<and> outside_is_nonterminal env x)"
  by (auto simp: seed_def Let_def dd_get_dd_add split: if_splits)

lemma fold_seed_lookups:
  "nonterminal_lookup (fold (seed env cls) rs st) = nonterminal_lookup st \<and>
   (\<forall>s. \<forall>x \<in> set (dd_get (reverse_lookup (fold (seed env cls) rs st)) s).
      x \<in> set (dd_get (reverse_lookup st) s) \<or>
      (x \<in> set (map (axiom env cls) rs) \<and> outside_is_nonterminal env x))"
proof (induction rs arbitrary: st)
  case Nil
  then show ?case by simp
next
  case (Cons r rs)
  show ?case
  proof (intro conjI allI ballI)
    show "nonterminal_lookup (fold (seed env cls) (r # rs) st) = nonterminal_lookup st"
      using Cons.IH [of "seed env cls r st"] by (simp add: seed_lookups(1))
  next
    fix s x
    assume "x \<in> set (dd_get (reverse_lookup (fold (seed env cls) (r # rs) st)) s)"
    then have "x \<in> set (dd_get (reverse_lookup (fold (seed env cls) rs (seed env cls r st))) s)"
      by simp
    with Cons.IH [of "seed env cls r st"]
    have "x \<in> set (dd_get (reverse_lookup (seed env cls r st)) s) \<or>
          (x \<in> set (map (axiom env cls) rs) \<and> outside_is_nonterminal env x)"
      by blast
    then show "x \<in> set (dd_get (reverse_lookup st) s) \<or>
          (x \<in> set (map (axiom env cls) (r # rs)) \<and> outside_is_nonterminal env x)"
      using seed_lookups(2) [of x env cls r st s] by auto
  qed
qed

text \<open>Items joining the queue.\<close>

lemma enqueued_refl: "enqueued N st st"
  unfolding enqueued_def by (intro conjI refl exI [of _ "[]"]) simp_all

lemma enqueued_trans:
  assumes "enqueued N a b" and "enqueued N b c"
  shows "enqueued N a c"
proof -
  from assms(1) obtain ns where 1: "visited b = visited a" "reverse_lookup b = reverse_lookup a"
    "nonterminal_lookup b = nonterminal_lookup a" "queue b = queue a @ ns"
    "set (pending b) = set (pending a) \<union> set ns" "distinct ns"
    "set ns \<inter> (set (pending a) \<union> set (visited a)) = {}" "set ns \<subseteq> N"
    unfolding enqueued_def by blast
  from assms(2) obtain ms where 2: "visited c = visited b" "reverse_lookup c = reverse_lookup b"
    "nonterminal_lookup c = nonterminal_lookup b" "queue c = queue b @ ms"
    "set (pending c) = set (pending b) \<union> set ms" "distinct ms"
    "set ms \<inter> (set (pending b) \<union> set (visited b)) = {}" "set ms \<subseteq> N"
    unfolding enqueued_def by blast
  have "queue c = queue a @ (ns @ ms)" using 1(4) 2(4) by simp
  moreover have "set (pending c) = set (pending a) \<union> set (ns @ ms)"
    using 1(5) 2(5) by auto
  moreover have "distinct (ns @ ms)" using 1(5,6) 2(6,7) by auto
  moreover have "set (ns @ ms) \<inter> (set (pending a) \<union> set (visited a)) = {}"
    using 1(1,5,7) 2(7) by auto
  moreover have "set (ns @ ms) \<subseteq> N" using 1(8) 2(8) by simp
  ultimately have "\<exists>ks. queue c = queue a @ ks \<and> set (pending c) = set (pending a) \<union> set ks \<and>
           distinct ks \<and> set ks \<inter> (set (pending a) \<union> set (visited a)) = {} \<and> set ks \<subseteq> N"
    by blast
  with 1(1,2,3) 2(1,2,3) show ?thesis unfolding enqueued_def by simp
qed

lemma enqueued_mono:
  assumes "enqueued N a b" and "N \<subseteq> M"
  shows "enqueued M a b"
  using assms unfolding enqueued_def by blast

lemma enqueue_enqueued: "enqueued {n} st (enqueue n st)"
proof (cases "n \<notin> set (pending st) \<and> n \<notin> set (visited st)")
  case True
  then show ?thesis
    unfolding enqueued_def enqueue_def
    by (intro conjI exI [of _ "[n]"]) auto
next
  case False
  then have "enqueue n st = st" by (auto simp: enqueue_def)
  then show ?thesis by (simp add: enqueued_refl)
qed

lemma enqueued_after_update:
  assumes "visited b = visited a" and "reverse_lookup b = reverse_lookup a"
    and "nonterminal_lookup b = nonterminal_lookup a" and "queue b = queue a"
    and "pending b = pending a" and "enqueued N b c"
  shows "enqueued N a c"
  using assms unfolding enqueued_def by simp

lemma add_shifted_enqueued: "enqueued {n} st (add_shifted item n st)"
  unfolding add_shifted_def
  by (rule enqueued_after_update [OF _ _ _ _ _ enqueue_enqueued]) simp_all

lemma try_complete_enqueued:
  "enqueued {n. can_complete env item oitem \<and> n = complete env item oitem} st
     (try_complete env item oitem st)"
proof (cases "(item, oitem) \<in> set (attempted st) \<or> \<not> can_complete env item oitem")
  case True
  then show ?thesis
    unfolding try_complete_def Let_def enqueued_def
    by (auto intro: exI [of _ "[]"])
next
  case False
  let ?st2 = "st\<lparr>attempted := set_add (item, oitem) (attempted st),
                 evaluated := evaluated st @ [(item, oitem)],
                 chart := dd_add (chart st) (Item (complete env item oitem)) [item, oitem]\<rparr>"
  from False have eq: "try_complete env item oitem st = enqueue (complete env item oitem) ?st2"
    by (simp add: try_complete_def Let_def)
  have e: "enqueued {complete env item oitem} st (enqueue (complete env item oitem) ?st2)"
    by (rule enqueued_after_update [OF _ _ _ _ _ enqueue_enqueued]) simp_all
  have sub: "{complete env item oitem}
      \<subseteq> {n. can_complete env item oitem \<and> n = complete env item oitem}"
    using False by auto
  show ?thesis unfolding eq by (rule enqueued_mono [OF e sub])
qed

lemma fold_enqueued:
  assumes "\<And>x s. x \<in> set xs \<Longrightarrow> enqueued N s (f x s)"
  shows "enqueued N st (fold f xs st)"
  using assms
proof (induction xs arbitrary: st)
  case Nil
  show ?case by (simp add: enqueued_refl)
next
  case (Cons x xs)
  have 1: "enqueued N st (f x st)" using Cons.prems by simp
  have 2: "enqueued N (f x st) (fold f xs (f x st))"
    by (rule Cons.IH) (simp add: Cons.prems)
  from enqueued_trans [OF 1 2] show ?case by simp
qed

lemma enqueued_inv:
  assumes "agenda_inv env U st" and "enqueued N st st'" and "N \<subseteq> U"
  shows "agenda_inv env U st'"
proof -
  from assms(2) obtain ns where e: "visited st' = visited st"
    "reverse_lookup st' = reverse_lookup st" "nonterminal_lookup st' = nonterminal_lookup st"
    "queue st' = queue st @ ns" "set (pending st') = set (pending st) \<union> set ns" "distinct ns"
    "set ns \<inter> (set (pending st) \<union> set (visited st)) = {}" "set ns \<subseteq> N"
    unfolding enqueued_def by blast
  from assms(1) have i: "distinct (queue st)" "set (queue st) = set (pending st)"
    "set (pending st) \<subseteq> U" "set (visited st) \<subseteq> U"
    "\<forall>x \<in> set (pending st). closed env x \<longrightarrow> x \<notin> set (visited st)"
    "\<forall>s. \<forall>x \<in> set (dd_get (reverse_lookup st) s). x \<in> U \<and> \<not> closed env x"
    "\<forall>s. set (dd_get (nonterminal_lookup st) s) \<subseteq> U"
    unfolding agenda_inv_def by blast+
  have "distinct (queue st')" using e(4,6,7) i(1,2) by auto
  moreover have "set (queue st') = set (pending st')" using e(4,5) i(2) by auto
  moreover have "set (pending st') \<subseteq> U" using e(5,8) i(3) assms(3) by auto
  moreover have "set (visited st') \<subseteq> U" using e(1) i(4) by simp
  moreover have "\<forall>x \<in> set (pending st'). closed env x \<longrightarrow> x \<notin> set (visited st')"
    using e(1,5,7) i(5) by auto
  ultimately show ?thesis
    unfolding agenda_inv_def using e(2,3) i(6,7) by simp
qed

lemma enqueued_measure:
  assumes "finite U" and "agenda_inv env U st" and "enqueued N st st'" and "N \<subseteq> U"
  shows "agenda_measure env U st' = agenda_measure env U st"
proof -
  from assms(3) obtain ns where e: "visited st' = visited st"
    "queue st' = queue st @ ns" "set (pending st') = set (pending st) \<union> set ns" "distinct ns"
    "set ns \<inter> (set (pending st) \<union> set (visited st)) = {}" "set ns \<subseteq> N"
    unfolding enqueued_def by blast
  let ?F = "U - (set (visited st) \<union> set (pending st))"
  have sub: "set ns \<subseteq> ?F" using e(5,6) assms(4) by auto
  have fin: "finite ?F" using assms(1) by simp
  have "U - (set (visited st') \<union> set (pending st')) = ?F - set ns"
    using e(1,3) by auto
  then have "card (U - (set (visited st') \<union> set (pending st'))) = card ?F - card (set ns)"
    using card_Diff_subset [OF _ sub] by simp
  moreover have "card (set ns) \<le> card ?F" using card_mono [OF fin sub] .
  moreover have "card (set ns) = length ns" using e(4) by (rule distinct_card)
  ultimately have "card (U - (set (visited st') \<union> set (pending st'))) + length (queue st')
      = card ?F + length (queue st)"
    using e(2) by simp
  then show ?thesis unfolding agenda_measure_def using e(1) by simp
qed

lemma wake_up_lookups [simp]:
  "reverse_lookup (wake_up r st) = reverse_lookup st"
  "nonterminal_lookup (wake_up r st) = nonterminal_lookup st"
  by (simp_all add: wake_up_def)

lemma wake_up_inv:
  assumes "agenda_inv env U st" and "r \<in> U" and "\<not> closed env r"
  shows "agenda_inv env U (wake_up r st)"
  using assms unfolding agenda_inv_def wake_up_def by auto

lemma fold_wake_up_inv:
  assumes "agenda_inv env U st" and "\<forall>r \<in> set rs. r \<in> U \<and> \<not> closed env r"
  shows "agenda_inv env U (fold wake_up rs st)"
  using assms
proof (induction rs arbitrary: st)
  case Nil
  then show ?case by simp
next
  case (Cons r rs)
  from Cons.prems have "agenda_inv env U (wake_up r st)"
    by (intro wake_up_inv) simp_all
  from Cons.IH [OF this] Cons.prems(2) show ?case by simp
qed

lemma popped_inv:
  assumes "agenda_inv env U st" and "queue st \<noteq> []"
    and "queue b = tl (queue st)" and "pending b = removeAll (hd (queue st)) (pending st)"
    and "visited b = set_add (hd (queue st)) (visited st)"
    and "\<forall>s. \<forall>x \<in> set (dd_get (reverse_lookup b) s). x \<in> U \<and> \<not> closed env x"
    and "\<forall>s. set (dd_get (nonterminal_lookup b) s) \<subseteq> U"
  shows "agenda_inv env U b"
proof -
  from assms(1) have i: "distinct (queue st)" "set (queue st) = set (pending st)"
    "set (pending st) \<subseteq> U" "set (visited st) \<subseteq> U"
    "\<forall>x \<in> set (pending st). closed env x \<longrightarrow> x \<notin> set (visited st)"
    unfolding agenda_inv_def by blast+
  from assms(2) obtain x xs where q: "queue st = x # xs" by (cases "queue st") auto
  have "distinct (queue b)" using i(1) q assms(3) by simp
  moreover have "set (queue b) = set (pending b)" using i(1,2) q assms(3,4) by auto
  moreover have "set (pending b) \<subseteq> U" using i(3) assms(4) by auto
  moreover have "set (visited b) \<subseteq> U" using i(2,3,4) q assms(5) by auto
  moreover have "\<forall>x \<in> set (pending b). closed env x \<longrightarrow> x \<notin> set (visited b)"
    using i(5) q assms(4,5) by auto
  ultimately show ?thesis unfolding agenda_inv_def using assms(6,7) by simp
qed

lemma popped_measure_open:
  assumes "finite U" and "agenda_inv env U st" and "queue st \<noteq> []"
    and "\<not> closed env (hd (queue st))"
    and "queue b = tl (queue st)" and "pending b = removeAll (hd (queue st)) (pending st)"
    and "visited b = set_add (hd (queue st)) (visited st)"
  shows "(agenda_measure env U b, agenda_measure env U st) \<in> less_than <*lex*> less_than"
proof -
  from assms(2) have i: "set (queue st) = set (pending st)"
    unfolding agenda_inv_def by blast
  from assms(3) obtain x xs where q: "queue st = x # xs" by (cases "queue st") auto
  have "{c \<in> U. closed env c \<and> c \<notin> set (visited b)} =
        {c \<in> U. closed env c \<and> c \<notin> set (visited st)}"
    using assms(4,7) by auto
  moreover have "set (visited b) \<union> set (pending b) = set (visited st) \<union> set (pending st)"
    using i q assms(6,7) by auto
  moreover have "length (queue b) < length (queue st)" using q assms(5) by simp
  ultimately show ?thesis unfolding agenda_measure_def by simp
qed

lemma popped_measure_closed:
  assumes "finite U" and "agenda_inv env U st" and "queue st \<noteq> []"
    and "closed env (hd (queue st))"
    and "visited b = set_add (hd (queue st)) (visited st)"
  shows "(agenda_measure env U b, agenda_measure env U st) \<in> less_than <*lex*> less_than"
proof -
  from assms(2) have i: "set (queue st) = set (pending st)" "set (pending st) \<subseteq> U"
    "\<forall>x \<in> set (pending st). closed env x \<longrightarrow> x \<notin> set (visited st)"
    unfolding agenda_inv_def by blast+
  from assms(3) have hd_in: "hd (queue st) \<in> set (pending st)" using i(1) by (cases "queue st") auto
  let ?A = "{c \<in> U. closed env c \<and> c \<notin> set (visited st)}"
  have mem: "hd (queue st) \<in> ?A" using hd_in i(2,3) assms(4) by auto
  have fin: "finite ?A" using assms(1) by simp
  have "{c \<in> U. closed env c \<and> c \<notin> set (visited b)} = ?A - {hd (queue st)}"
    using assms(5) by auto
  then have "card {c \<in> U. closed env c \<and> c \<notin> set (visited b)} < card ?A"
    using card_Diff1_less [OF fin mem] by simp
  then show ?thesis unfolding agenda_measure_def by simp
qed

text \<open>
  One turn of the loop on a set of items closed under completion and shift: no
  exception, the invariant kept, the measure smaller.
\<close>

lemma step_total:
  assumes fin: "finite U" and inv: "agenda_inv env U st" and ne: "queue st \<noteq> []"
    and co: "\<forall>i \<in> U. \<forall>oitem \<in> U. \<not> closed env i \<longrightarrow> outside_is_nonterminal env i \<longrightarrow>
               can_complete env i oitem \<longrightarrow> complete env i oitem \<in> U"
    and sh: "\<forall>i \<in> U. \<not> closed env i \<longrightarrow> \<not> outside_is_nonterminal env i \<longrightarrow>
               (\<exists>ns. shift_items env string graph i = Inr ns \<and> set ns \<subseteq> U)"
  shows "\<exists>st'. step env string graph st = Inr st' \<and> agenda_inv env U st' \<and>
     (agenda_measure env U st', agenda_measure env U st) \<in> less_than <*lex*> less_than"
proof -
  let ?item = "hd (queue st)"
  from inv have i: "set (queue st) = set (pending st)" "set (pending st) \<subseteq> U"
    "\<forall>s. \<forall>x \<in> set (dd_get (reverse_lookup st) s). x \<in> U \<and> \<not> closed env x"
    "\<forall>s. set (dd_get (nonterminal_lookup st) s) \<subseteq> U"
    unfolding agenda_inv_def by blast+
  from ne i(1) have pend: "?item \<in> set (pending st)" by (cases "queue st") auto
  with i(2) have inU: "?item \<in> U" by auto
  show ?thesis
  proof (cases "closed env ?item")
    case True
    define st3 where "st3 =
      (if successful_parse env string graph ?item (string_size string) (graph_size env graph)
       then st\<lparr>queue := tl (queue st),
               pending := removeAll ?item (pending st),
               visited := set_add ?item (visited st),
               chart := dd_add (chart st) START [?item], success := True,
               nonterminal_lookup := dd_add (nonterminal_lookup st)
                  (rule_symbol env ?item) ?item\<rparr>
       else st\<lparr>queue := tl (queue st),
               pending := removeAll ?item (pending st),
               visited := set_add ?item (visited st),
               nonterminal_lookup := dd_add (nonterminal_lookup st)
                  (rule_symbol env ?item) ?item\<rparr>)"
    let ?rs = "dd_get (reverse_lookup st) (rule_symbol env ?item)"
    have eq: "step env string graph st = Inr (fold wake_up ?rs st3)"
      using True pend unfolding step_def Let_def st3_def by simp
    have f: "queue st3 = tl (queue st)" "pending st3 = removeAll ?item (pending st)"
      "visited st3 = set_add ?item (visited st)" "reverse_lookup st3 = reverse_lookup st"
      "nonterminal_lookup st3 = dd_add (nonterminal_lookup st) (rule_symbol env ?item) ?item"
      by (simp_all add: st3_def)
    have "\<forall>s. set (dd_get (nonterminal_lookup st3) s) \<subseteq> U"
      unfolding f(5) using i(4) inU by (auto simp: dd_get_dd_add)
    with i(3) have inv3: "agenda_inv env U st3"
      by (intro popped_inv [OF inv ne f(1,2,3)]) (simp_all add: f(4))
    have "\<forall>r \<in> set ?rs. r \<in> U \<and> \<not> closed env r" using i(3) by blast
    from fold_wake_up_inv [OF inv3 this] have inv': "agenda_inv env U (fold wake_up ?rs st3)" .
    have "visited (fold wake_up ?rs st3) = set_add ?item (visited st)"
      by (simp add: f(3))
    from popped_measure_closed [OF fin inv ne True this] eq inv' show ?thesis by blast
  next
    case open_item: False
    show ?thesis
    proof (cases "outside_is_nonterminal env ?item")
      case True
      define st2 where "st2 = st\<lparr>queue := tl (queue st),
                 pending := removeAll ?item (pending st),
                 visited := set_add ?item (visited st),
                 reverse_lookup := dd_add (reverse_lookup st)
                    (outside_symbol env ?item) ?item\<rparr>"
      let ?os = "dd_get (nonterminal_lookup st) (outside_symbol env ?item)"
      let ?N = "{n. \<exists>oitem \<in> set ?os. can_complete env ?item oitem \<and>
                     n = complete env ?item oitem}"
      have eq: "step env string graph st = Inr (fold (try_complete env ?item) ?os st2)"
        using True open_item pend unfolding step_def Let_def st2_def by simp
      have f: "queue st2 = tl (queue st)" "pending st2 = removeAll ?item (pending st)"
        "visited st2 = set_add ?item (visited st)"
        "reverse_lookup st2 = dd_add (reverse_lookup st) (outside_symbol env ?item) ?item"
        "nonterminal_lookup st2 = nonterminal_lookup st"
        by (simp_all add: st2_def)
      have "\<forall>s. \<forall>x \<in> set (dd_get (reverse_lookup st2) s). x \<in> U \<and> \<not> closed env x"
        unfolding f(4) using i(3) inU open_item by (auto simp: dd_get_dd_add)
      with i(4) have inv2: "agenda_inv env U st2"
        by (intro popped_inv [OF inv ne f(1,2,3)]) (simp_all add: f(5))
      have m2: "(agenda_measure env U st2, agenda_measure env U st)
          \<in> less_than <*lex*> less_than"
        by (rule popped_measure_open [OF fin inv ne open_item f(1,2,3)])
      have enq: "enqueued ?N st2 (fold (try_complete env ?item) ?os st2)"
      proof (rule fold_enqueued)
        fix x s
        assume x: "x \<in> set ?os"
        have "{n. can_complete env ?item x \<and> n = complete env ?item x} \<subseteq> ?N"
          using x by blast
        from enqueued_mono [OF try_complete_enqueued this]
        show "enqueued ?N s (try_complete env ?item x s)" .
      qed
      have sub: "?N \<subseteq> U" using co inU open_item True i(4) by blast
      from enqueued_inv [OF inv2 enq sub] enqueued_measure [OF fin inv2 enq sub] m2 eq
      show ?thesis by auto
    next
      case False
      define st1 where "st1 = st\<lparr>queue := tl (queue st),
                 pending := removeAll ?item (pending st),
                 visited := set_add ?item (visited st)\<rparr>"
      from sh inU open_item False obtain ns where
        ns: "shift_items env string graph ?item = Inr ns" and sub: "set ns \<subseteq> U"
        by blast
      have eq: "step env string graph st = Inr (fold (add_shifted ?item) ns st1)"
        using False open_item pend ns unfolding step_def Let_def st1_def by simp
      have f: "queue st1 = tl (queue st)" "pending st1 = removeAll ?item (pending st)"
        "visited st1 = set_add ?item (visited st)"
        "reverse_lookup st1 = reverse_lookup st"
        "nonterminal_lookup st1 = nonterminal_lookup st"
        by (simp_all add: st1_def)
      from i(3,4) have inv1: "agenda_inv env U st1"
        by (intro popped_inv [OF inv ne f(1,2,3)]) (simp_all add: f(4,5))
      have m1: "(agenda_measure env U st1, agenda_measure env U st)
          \<in> less_than <*lex*> less_than"
        by (rule popped_measure_open [OF fin inv ne open_item f(1,2,3)])
      have enq: "enqueued (set ns) st1 (fold (add_shifted ?item) ns st1)"
      proof (rule fold_enqueued)
        fix x s
        assume x: "x \<in> set ns"
        then have "{x} \<subseteq> set ns" by simp
        from enqueued_mono [OF add_shifted_enqueued this]
        show "enqueued (set ns) s (add_shifted ?item x s)" .
      qed
      from enqueued_inv [OF inv1 enq sub] enqueued_measure [OF fin inv1 enq sub] m1 eq
      show ?thesis by auto
    qed
  qed
qed

lemma agenda_terminates:
  assumes fin: "finite U"
    and co: "\<forall>i \<in> U. \<forall>oitem \<in> U. \<not> closed env i \<longrightarrow> outside_is_nonterminal env i \<longrightarrow>
               can_complete env i oitem \<longrightarrow> complete env i oitem \<in> U"
    and sh: "\<forall>i \<in> U. \<not> closed env i \<longrightarrow> \<not> outside_is_nonterminal env i \<longrightarrow>
               (\<exists>ns. shift_items env string graph i = Inr ns \<and> set ns \<subseteq> U)"
    and inv: "agenda_inv env U st"
  shows "\<exists>st'. agenda env string graph st = Some (Inr st')"
proof -
  have wf: "wf (inv_image (less_than <*lex*> less_than) (agenda_measure env U))"
    by (intro wf_inv_image wf_lex_prod wf_less_than)
  have "agenda_inv env U st \<longrightarrow> (\<exists>st'. agenda env string graph st = Some (Inr st'))"
  proof (rule wf_induct [OF wf, of "\<lambda>st. agenda_inv env U st \<longrightarrow>
      (\<exists>st'. agenda env string graph st = Some (Inr st'))"])
    fix x
    assume IH: "\<forall>y. (y, x) \<in> inv_image (less_than <*lex*> less_than) (agenda_measure env U)
        \<longrightarrow> agenda_inv env U y \<longrightarrow> (\<exists>st'. agenda env string graph y = Some (Inr st'))"
    show "agenda_inv env U x \<longrightarrow> (\<exists>st'. agenda env string graph x = Some (Inr st'))"
    proof
      assume ix: "agenda_inv env U x"
      show "\<exists>st'. agenda env string graph x = Some (Inr st')"
      proof (cases "queue x = []")
        case True
        then have "agenda env string graph x = Some (Inr x)"
          by (subst agenda.simps) simp
        then show ?thesis by blast
      next
        case False
        from step_total [OF fin ix False co sh] obtain y where
          y: "step env string graph x = Inr y" "agenda_inv env U y"
          "(agenda_measure env U y, agenda_measure env U x) \<in> less_than <*lex*> less_than"
          by blast
        from y(3) have "(y, x) \<in> inv_image (less_than <*lex*> less_than) (agenda_measure env U)"
          by simp
        with IH y(2) obtain st' where "agenda env string graph y = Some (Inr st')" by blast
        with False y(1) have "agenda env string graph x = Some (Inr st')"
          by (subst agenda.simps) simp
        then show ?thesis by blast
      qed
    qed
  qed
  with inv show ?thesis by blast
qed

lemma seeded_inv:
  assumes "distinct (map (axiom env (axiom_class_of env string graph)) (grammar_values env))"
    and "\<forall>r \<in> set (grammar_values env).
           axiom env (axiom_class_of env string graph) r \<in> U \<and>
           (closed env (axiom env (axiom_class_of env string graph) r) \<longrightarrow>
            \<not> outside_is_nonterminal env (axiom env (axiom_class_of env string graph) r))"
  shows "agenda_inv env U (seeded env string graph)"
proof -
  let ?cls = "axiom_class_of env string graph"
  note q = seeded_queue [OF assms(1)]
  note f = fold_seed_queue [of env ?cls "grammar_values env" initial]
  note l = fold_seed_lookups [of env ?cls "grammar_values env" initial]
  have p: "set (pending (seeded env string graph)) \<subseteq> U"
    using f assms(2) by (auto simp: seeded_def initial_def)
  have n: "\<forall>s. set (dd_get (nonterminal_lookup (seeded env string graph)) s) \<subseteq> U"
    using l by (simp add: seeded_def initial_def)
  have r: "\<forall>s. \<forall>x \<in> set (dd_get (reverse_lookup (seeded env string graph)) s).
      x \<in> U \<and> \<not> closed env x"
  proof (intro allI ballI)
    fix s x
    assume "x \<in> set (dd_get (reverse_lookup (seeded env string graph)) s)"
    with l have "x \<in> set (map (axiom env ?cls) (grammar_values env)) \<and>
        outside_is_nonterminal env x"
      by (auto simp: seeded_def initial_def)
    with assms(2) show "x \<in> U \<and> \<not> closed env x" by auto
  qed
  from q p n r show ?thesis unfolding agenda_inv_def by simp
qed

lemma shift_items_returns:
  assumes "truthy_string string \<or> truthy_graph env graph"
    and "truthy_string string \<and> truthy_graph env graph \<longrightarrow>
         outside_word_is_nonterminal env item \<longrightarrow> \<not> outside_edge_is_nonterminal env item"
  shows "\<exists>ns. shift_items env string graph item = Inr ns"
  using assms by (auto simp: shift_items_def)

lemma parse_state_returns:
  assumes nonempty: "truthy_string string \<or> truthy_graph env graph"
    and axioms: "distinct (map (axiom env (axiom_class_of env string graph)) (grammar_values env))"
    and axioms_in: "\<forall>r \<in> set (grammar_values env).
           axiom env (axiom_class_of env string graph) r \<in> set items \<and>
           (closed env (axiom env (axiom_class_of env string graph) r) \<longrightarrow>
            \<not> outside_is_nonterminal env (axiom env (axiom_class_of env string graph) r))"
    and complete_in: "\<forall>i \<in> set items. \<forall>oitem \<in> set items.
           \<not> closed env i \<longrightarrow> outside_is_nonterminal env i \<longrightarrow>
           can_complete env i oitem \<longrightarrow> complete env i oitem \<in> set items"
    and line_173: "truthy_string string \<and> truthy_graph env graph \<longrightarrow>
           (\<forall>i \<in> set items. \<not> closed env i \<longrightarrow> \<not> outside_is_nonterminal env i \<longrightarrow>
              outside_word_is_nonterminal env i \<longrightarrow> \<not> outside_edge_is_nonterminal env i)"
    and shift_in: "\<forall>i \<in> set items. \<not> closed env i \<longrightarrow> \<not> outside_is_nonterminal env i \<longrightarrow>
           (case shift_items env string graph i of Inl e \<Rightarrow> True
            | Inr ns \<Rightarrow> set ns \<subseteq> set items)"
  shows "\<exists>st. parse_state env string graph = Some (Inr st)"
proof -
  have sh: "\<forall>i \<in> set items. \<not> closed env i \<longrightarrow> \<not> outside_is_nonterminal env i \<longrightarrow>
      (\<exists>ns. shift_items env string graph i = Inr ns \<and> set ns \<subseteq> set items)"
  proof (intro ballI impI)
    fix i
    assume i: "i \<in> set items" "\<not> closed env i" "\<not> outside_is_nonterminal env i"
    with line_173 have "truthy_string string \<and> truthy_graph env graph \<longrightarrow>
         outside_word_is_nonterminal env i \<longrightarrow> \<not> outside_edge_is_nonterminal env i"
      by blast
    from shift_items_returns [OF nonempty this] obtain ns where
      ns: "shift_items env string graph i = Inr ns" by blast
    with shift_in i have "set ns \<subseteq> set items" by fastforce
    with ns show "\<exists>ns. shift_items env string graph i = Inr ns \<and> set ns \<subseteq> set items"
      by blast
  qed
  have "finite (set items)" by simp
  from agenda_terminates [OF this complete_in sh seeded_inv [OF axioms axioms_in]]
  show ?thesis unfolding parse_state_def .
qed


section \<open>Lemmas on forest extraction\<close>

lemma fold_set_add:
  "set (fold set_add xs acc) = set xs \<union> set acc"
  "distinct acc \<Longrightarrow> distinct (fold set_add xs acc)"
  by (induction xs arbitrary: acc) auto

lemma set_set_of [simp]: "set (set_of xs) = set xs"
  by (simp add: set_of_def fold_set_add)

lemma distinct_set_of [simp]: "distinct (set_of xs)"
  by (simp add: set_of_def fold_set_add)

lemma distinct_singleton:
  assumes "distinct ys" and "set ys = {c}"
  shows "ys = [c]"
proof (cases ys)
  case Nil
  with assms show ?thesis by simp
next
  case (Cons y zs)
  with assms have "y = c" by auto
  moreover from Cons assms have "zs = []" by (cases zs) auto
  ultimately show ?thesis using Cons by simp
qed

lemma set_of_uniform:
  assumes "xs \<noteq> []" and "\<forall>x \<in> set xs. f x = c"
  shows "set_of (map f xs) = [c]"
proof (rule distinct_singleton)
  show "distinct (set_of (map f xs))" by simp
  from assms show "set (set_of (map f xs)) = {c}"
    by (cases xs) auto
qed

lemma set_of_single:
  assumes "length (set_of (map f xs)) = 1"
  shows "\<forall>x \<in> set xs. f x = hd (set_of (map f xs))"
proof -
  from assms obtain c where c: "set_of (map f xs) = [c]"
    by (cases "set_of (map f xs)") auto
  then have "set (set_of (map f xs)) = {c}" by simp
  then have "f ` set xs = {c}" by simp
  with c show ?thesis by auto
qed

lemma walk_no_productions:
  "dd_get raw_chart pitem = [] \<Longrightarrow> walk env raw_chart pitem rp = Some (Inr rp)"
  by (subst walk.simps) simp

lemma walk_start:
  "dd_get raw_chart START \<noteq> [] \<Longrightarrow>
   walk env raw_chart START rp =
     Some (Inr (AList.update StartLabel (concat (dd_get raw_chart START)) rp))"
  by (subst walk.simps) simp

lemma walk_partial:
  assumes "dd_get raw_chart (Item p) \<noteq> []" and "rule_symbol env p = ''PARTIAL''"
  shows "walk env raw_chart (Item p) rp =
     (if length (dd_get raw_chart (Item p)) \<noteq> 1 then Some (Inl AssertionError)
      else if hd (dd_get raw_chart (Item p)) = [] then Some (Inr rp)
      else Some (Inl AttributeError))"
  using assms by (subst walk.simps) simp

lemma walk_binary:
  assumes "dd_get raw_chart (Item p) \<noteq> []" and "rule_symbol env p \<noteq> ''PARTIAL''"
    and "\<forall>x \<in> set (dd_get raw_chart (Item p)). length x = 2"
  shows "walk env raw_chart (Item p) rp =
     walk env raw_chart (Item (set_pop env (set_of (map hd (dd_get raw_chart (Item p))))))
       (AList.update
          (SlotLabel (outside_symbol env (hd (hd (dd_get raw_chart (Item p)))))
             (outside_nt_index env (hd (hd (dd_get raw_chart (Item p))))))
          (map (\<lambda>x. x ! 1) (dd_get raw_chart (Item p))) rp)"
proof -
  have len: "set_of (map length (dd_get raw_chart (Item p))) = [2]"
    using assms(1,3) by (rule set_of_uniform)
  have "[] \<notin> set (dd_get raw_chart (Item p))"
    using assms(3) by auto
  with assms(1,2) len show ?thesis
    by (subst walk.simps) simp
qed

lemma walk_bad_arity:
  assumes "dd_get raw_chart (Item p) \<noteq> []" and "rule_symbol env p \<noteq> ''PARTIAL''"
    and "\<not> (\<exists>n \<in> {1, 2}. \<forall>x \<in> set (dd_get raw_chart (Item p)). length x = n)"
  shows "walk env raw_chart (Item p) rp =
     Some (Inl (if [] \<in> set (dd_get raw_chart (Item p)) then IndexError else AssertionError))"
proof (cases "[] \<in> set (dd_get raw_chart (Item p))")
  case True
  with assms(1,2) show ?thesis by (subst walk.simps) simp
next
  case no_empty: False
  show ?thesis
  proof (cases "length (set_of (map length (dd_get raw_chart (Item p)))) = 1")
    case False
    with assms(1,2) no_empty show ?thesis by (subst walk.simps) simp
  next
    case True
    from set_of_single [OF True] assms(3)
    have "hd (set_of (map length (dd_get raw_chart (Item p)))) \<noteq> 1"
      and "hd (set_of (map length (dd_get raw_chart (Item p)))) \<noteq> 2"
      by auto
    with assms(1,2) no_empty True show ?thesis by (subst walk.simps) simp
  qed
qed

lemma walk_keys:
  assumes "walk env0 raw0 k0 rp0 = Some y0"
  shows "\<forall>res. y0 = Inr res \<longrightarrow> fst ` set rp0 \<subseteq> fst ` set res"
proof (rule walk.raw_induct [where P = "\<lambda>env raw k rp y.
     \<forall>res. y = Inr res \<longrightarrow> fst ` set rp \<subseteq> fst ` set res", OF _ assms])
  fix f env raw k rp y
  assume IH: "\<And>e r p a b. f e r p a = Some b \<Longrightarrow>
      \<forall>res. b = Inr res \<longrightarrow> fst ` set a \<subseteq> fst ` set res"
    and body: "(if length (dd_get raw k) = 0 then Some (Inr rp)
      else if k = START then
        Some (Inr (AList.update StartLabel (concat (dd_get raw k)) rp))
      else if rule_symbol env (the_item k) = ''PARTIAL'' then
        (if length (dd_get raw k) \<noteq> 1 then Some (Inl AssertionError)
         else if hd (dd_get raw k) = [] then Some (Inr rp)
         else Some (Inl AttributeError))
      else if [] \<in> set (dd_get raw k) then Some (Inl IndexError)
      else if length (set_of (map length (dd_get raw k))) \<noteq> 1 then
        Some (Inl AssertionError)
      else if hd (set_of (map length (dd_get raw k))) \<noteq> 1 then
        (if hd (set_of (map length (dd_get raw k))) \<noteq> 2 then Some (Inl AssertionError)
         else
           f env raw (Item (set_pop env (set_of (map hd (dd_get raw k)))))
             (AList.update
                (SlotLabel (outside_symbol env (hd (hd (dd_get raw k))))
                   (outside_nt_index env (hd (hd (dd_get raw k)))))
                (map (\<lambda>x. x ! 1) (dd_get raw k))
                rp))
      else
        f env raw (Item (set_pop env (set_of (map hd (dd_get raw k))))) rp) = Some y"
  let ?left = "Item (set_pop env (set_of (map hd (dd_get raw k))))"
  let ?rp2 = "AList.update
                (SlotLabel (outside_symbol env (hd (hd (dd_get raw k))))
                   (outside_nt_index env (hd (hd (dd_get raw k)))))
                (map (\<lambda>x. x ! 1) (dd_get raw k)) rp"
  show "\<forall>res. y = Inr res \<longrightarrow> fst ` set rp \<subseteq> fst ` set res"
  proof (cases "length (dd_get raw k) = 0")
    case True
    with body have "y = Inr rp" by simp
    then show ?thesis by simp
  next
    case c1: False
    show ?thesis
    proof (cases "k = START")
      case True
      with body c1 have "y = Inr (AList.update StartLabel (concat (dd_get raw k)) rp)"
        by simp
      then show ?thesis by (auto simp: dom_update)
    next
      case c2: False
      show ?thesis
      proof (cases "rule_symbol env (the_item k) = ''PARTIAL''")
        case True
        with body c1 c2 have "y = Inr rp \<or> (\<exists>e. y = Inl e)"
          by (auto split: if_splits)
        then show ?thesis by auto
      next
        case c3: False
        show ?thesis
        proof (cases "[] \<in> set (dd_get raw k) \<or>
            length (set_of (map length (dd_get raw k))) \<noteq> 1")
          case True
          with body c1 c2 c3 have "\<exists>e. y = Inl e"
            by (auto split: if_splits)
          then show ?thesis by auto
        next
          case c4: False
          show ?thesis
          proof (cases "hd (set_of (map length (dd_get raw k))) = 1")
            case True
            with body c1 c2 c3 c4 have "f env raw ?left rp = Some y" by simp
            from IH [OF this] show ?thesis .
          next
            case c5: False
            show ?thesis
            proof (cases "hd (set_of (map length (dd_get raw k))) = 2")
              case True
              with body c1 c2 c3 c4 c5 have "f env raw ?left ?rp2 = Some y" by simp
              from IH [OF this] show ?thesis by (auto simp: dom_update)
            next
              case False
              with body c1 c2 c3 c4 c5 have "\<exists>e. y = Inl e" by auto
              then show ?thesis by auto
            qed
          qed
        qed
      qed
    qed
  qed
qed

section \<open>The reachability pass\<close>

lemma reached_start: "START \<in> reached raw_chart"
  by (simp add: reached_def)

lemma reached_step:
  "k \<in> reached raw_chart \<Longrightarrow> b \<in> set (antecedents raw_chart k) \<Longrightarrow> b \<in> reached raw_chart"
  unfolding reached_def by (auto intro: rtrancl_into_rtrancl)

lemma reached_least:
  assumes "START \<in> S" and "\<forall>v \<in> S. set (antecedents raw_chart v) \<subseteq> S"
  shows "reached raw_chart \<subseteq> S"
proof
  fix k
  assume "k \<in> reached raw_chart"
  then have "(START, k) \<in> {(a, b). b \<in> set (antecedents raw_chart a)}\<^sup>*"
    by (simp add: reached_def)
  then show "k \<in> S"
  proof (induction rule: rtrancl_induct)
    case base
    from assms(1) show ?case .
  next
    case (step y z)
    with assms(2) show ?case by auto
  qed
qed

lemma set_butlast_last:
  "stack \<noteq> [] \<Longrightarrow> set stack = insert (last stack) (set (butlast stack))"
  by (metis append_butlast_last_id list.simps(15) rotate1.simps(2) set_rotate1)

lemma visit_reached_aux:
  assumes "visit raw0 stack0 vis0 = Some res0"
  shows "set stack0 \<union> set vis0 \<subseteq> reached raw0 \<longrightarrow>
         START \<in> set stack0 \<union> set vis0 \<longrightarrow>
         (\<forall>v \<in> set vis0. set (antecedents raw0 v) \<subseteq> set stack0 \<union> set vis0) \<longrightarrow>
         set res0 = reached raw0"
proof (rule visit.raw_induct [where P = "\<lambda>raw stack vis res.
         set stack \<union> set vis \<subseteq> reached raw \<longrightarrow>
         START \<in> set stack \<union> set vis \<longrightarrow>
         (\<forall>v \<in> set vis. set (antecedents raw v) \<subseteq> set stack \<union> set vis) \<longrightarrow>
         set res = reached raw", OF _ assms])
  fix f raw stack vis res
  assume IH: "\<And>r s v y. f r s v = Some y \<Longrightarrow>
         set s \<union> set v \<subseteq> reached r \<longrightarrow>
         START \<in> set s \<union> set v \<longrightarrow>
         (\<forall>u \<in> set v. set (antecedents r u) \<subseteq> set s \<union> set v) \<longrightarrow>
         set y = reached r"
    and body: "(if stack = [] then Some vis
      else if last stack \<in> set vis then f raw (butlast stack) vis
      else f raw (butlast stack @ map Item (concat (dd_get raw (last stack))))
             (set_add (last stack) vis)) = Some res"
  show "set stack \<union> set vis \<subseteq> reached raw \<longrightarrow>
         START \<in> set stack \<union> set vis \<longrightarrow>
         (\<forall>v \<in> set vis. set (antecedents raw v) \<subseteq> set stack \<union> set vis) \<longrightarrow>
         set res = reached raw"
  proof (intro impI)
    assume sub: "set stack \<union> set vis \<subseteq> reached raw"
      and start: "START \<in> set stack \<union> set vis"
      and cl: "\<forall>v \<in> set vis. set (antecedents raw v) \<subseteq> set stack \<union> set vis"
    show "set res = reached raw"
    proof (cases "stack = []")
      case True
      with body have res: "res = vis" by simp
      from True start cl have "reached raw \<subseteq> set vis"
        by (intro reached_least) auto
      with sub True res show ?thesis by auto
    next
      case False
      note split = set_butlast_last [OF False]
      show ?thesis
      proof (cases "last stack \<in> set vis")
        case True
        with False body have run: "f raw (butlast stack) vis = Some res" by simp
        have "set (butlast stack) \<union> set vis \<subseteq> reached raw"
          using sub split by auto
        moreover have "START \<in> set (butlast stack) \<union> set vis"
          using start split True by auto
        moreover have "\<forall>v \<in> set vis. set (antecedents raw v) \<subseteq> set (butlast stack) \<union> set vis"
          using cl split True by auto
        ultimately show ?thesis using IH [OF run] by simp
      next
        case new: False
        let ?stack = "butlast stack @ map Item (concat (dd_get raw (last stack)))"
        let ?vis = "set_add (last stack) vis"
        from False new body have run: "f raw ?stack ?vis = Some res" by simp
        have top: "last stack \<in> reached raw" using sub split by auto
        have ante: "set (map Item (concat (dd_get raw (last stack)))) = set (antecedents raw (last stack))"
          by (simp add: antecedents_def)
        have "set (antecedents raw (last stack)) \<subseteq> reached raw"
          using reached_step [OF top] by auto
        then have "set ?stack \<union> set ?vis \<subseteq> reached raw"
          using sub split top unfolding set_append ante by auto
        moreover have "START \<in> set ?stack \<union> set ?vis"
          using start split unfolding set_append by auto
        moreover have "\<forall>v \<in> set ?vis. set (antecedents raw v) \<subseteq> set ?stack \<union> set ?vis"
          using cl split unfolding set_append ante by auto
        ultimately show ?thesis using IH [OF run] by simp
      qed
    qed
  qed
qed

lemma visit_reached:
  assumes "visit raw_chart [START] [] = Some visit_items"
  shows "set visit_items = reached raw_chart"
  using visit_reached_aux [OF assms] by (simp add: reached_start)

lemma visit_no_goal:
  "dd_get raw_chart START = [] \<Longrightarrow> visit raw_chart [START] [] = Some [START]"
  by (subst visit.simps, simp add: set_add_def, subst visit.simps, simp)

lemma regroup_keys:
  assumes "regroup env raw_chart items acc = Some (Inr cky)"
  shows "fst ` set cky = fst ` set acc \<union>
     {k \<in> set items. (k = START \<or> closed env (the_item k)) \<and>
        (\<exists>rp. walk env raw_chart k [] = Some (Inr rp) \<and> rp \<noteq> [])}"
  using assms
proof (induction items arbitrary: acc)
  case Nil
  then show ?case by simp
next
  case (Cons item items)
  show ?case
  proof (cases "item = START \<or> closed env (the_item item)")
    case False
    with Cons.prems have "regroup env raw_chart items acc = Some (Inr cky)" by simp
    from Cons.IH [OF this] False show ?thesis by auto
  next
    case True
    with Cons.prems obtain rp where w: "walk env raw_chart item [] = Some (Inr rp)"
      and run: "regroup env raw_chart items
                 (if rp \<noteq> [] then AList.update item rp acc else acc) = Some (Inr cky)"
      by (auto split: option.splits sum.splits)
    from Cons.IH [OF run] True w show ?thesis
      by (auto simp: dom_update)
  qed
qed

lemma cky_chart_no_goal:
  "dd_get raw_chart START = [] \<Longrightarrow> cky_chart env raw_chart = Some (Inr [])"
  by (simp add: cky_chart_def visit_no_goal walk_no_productions)

section \<open>The goal key\<close>

text \<open>
  Claim C1, as amended. In a call of \<open>parse\<close> whose string, if given, is not empty and
  whose graph, if given, is not empty, one of them at least being given: when \<open>parse\<close>
  returns, the production \<open>(item,)\<close> is recorded under the goal key \<open>'START'\<close> if and only
  if the item was taken from the agenda as a closed item, the left-hand symbol of its
  rule is the start symbol of the grammar, and it covers the entire input: the span
  \<open>j - i\<close> is the length of the string in a string-only parse, the number of matched edges
  is the number of edges of the graph in a graph-only parse, both in a synchronous
  parse. Every production under the goal key is such a production: no item of partial
  coverage is attached to the goal key.
\<close>

theorem goal_iff_closed_start_symbol_and_full_cover:
  assumes "parse_state env string graph = Some (Inr st)"
    and "string \<noteq> Some []"
    and "\<forall>g. graph = Some g \<longrightarrow> graph_nonzero env g"
    and "string \<noteq> None \<or> graph \<noteq> None"
  shows "([item] \<in> set (dd_get (chart st) START) \<longleftrightarrow>
            item \<in> set (visited st) \<and> closed env item \<and>
            rule_symbol env item = start_symbol env \<and>
            covers_entire_input env string graph item) \<and>
         (\<forall>p \<in> set (dd_get (chart st) START).
            \<exists>i. p = [i] \<and> covers_entire_input env string graph i)"
  using goal_invariant [OF assms(1)]
  by (auto simp: successful_parse_covers [OF assms(2,3,4)])

theorem goal_iff_closed_start_symbol_and_full_cover_witness:
  "\<exists>st. parse_state (cfg_env g_chain ''S'') (Some [''b'', ''x'']) None = Some (Inr st) \<and>
        dd_get (chart st) START = [[(0, 2, 0, 2)]] \<and>
        (0, 2, 0, 2) \<in> set (visited st) \<and>
        closed (cfg_env g_chain ''S'') (0, 2, 0, 2) \<and>
        covers_entire_input (cfg_env g_chain ''S'') (Some [''b'', ''x'']) None (0, 2, 0, 2)"
proof -
  obtain st where run: "parse_state (cfg_env g_chain ''S'') (Some [''b'', ''x'']) None = Some (Inr st)"
    and goal: "dd_get (chart st) START = [[(0, 2, 0, 2)]]"
    using that [OF run_chain] by (simp add: dd_get_def)
  have h2: "Some [''b'', ''x''] \<noteq> Some []" by simp
  have h3: "\<forall>g. (None :: unit option) = Some g \<longrightarrow> graph_nonzero (cfg_env g_chain ''S'') g"
    by simp
  have h4: "Some [''b'', ''x''] \<noteq> None \<or> (None :: unit option) \<noteq> None" by simp
  from goal_iff_closed_start_symbol_and_full_cover [OF run h2 h3 h4, of "(0, 2, 0, 2)"] goal
  have "(0, 2, 0, 2) \<in> set (visited st) \<and>
        closed (cfg_env g_chain ''S'') (0, 2, 0, 2) \<and>
        covers_entire_input (cfg_env g_chain ''S'') (Some [''b'', ''x'']) None (0, 2, 0, 2)"
    by simp
  with run goal show ?thesis by blast
qed

text \<open>
  Claim C1 as stated fails: the goal test is made on closed items only (line 123). On
  \<open>g_chain\<close> and the single word \<open>b\<close>, the item \<open>(0, 1, 0, 1)\<close> of the rule \<open>S \<rightarrow> A x\<close> has the
  start symbol and spans the whole string, but it is open, and nothing is recorded under
  the goal key.
\<close>

theorem open_item_covering_input_not_recorded:
  "parse (cfg_env g_chain ''S'') (Some [''b'']) None = Some (Inr open_chart) \<and>
   dd_get open_chart START = [] \<and>
   dd_get open_chart (Item (0, 1, 0, 1)) = [[(0, 0, 0, 0), (1, 1, 0, 1)]] \<and>
   rule_symbol (cfg_env g_chain ''S'') (0, 1, 0, 1) = start_symbol (cfg_env g_chain ''S'') \<and>
   covers_entire_input (cfg_env g_chain ''S'') (Some [''b'']) None (0, 1, 0, 1) \<and>
   \<not> closed (cfg_env g_chain ''S'') (0, 1, 0, 1)"
  by code_simp

text \<open>
  Claim C10. In the raw chart that \<open>parse\<close> returns, every production under the goal key
  \<open>'START'\<close> is a tuple of one item, and that item is closed.
\<close>

theorem goal_productions_single_closed:
  assumes "parse env string graph = Some (Inr raw_chart)"
  shows "\<forall>p \<in> set (dd_get raw_chart START). \<exists>item. p = [item] \<and> closed env item"
proof -
  from assms obtain st where run: "parse_state env string graph = Some (Inr st)"
    and raw: "raw_chart = chart st"
    by (cases "parse_state env string graph") (auto simp: parse_def map_sum_def split: sum.splits)
  from goal_invariant [OF run] raw show ?thesis by blast
qed

theorem goal_productions_single_closed_witness:
  "\<exists>raw_chart. parse (cfg_env g_chain ''S'') (Some [''b'', ''x'']) None = Some (Inr raw_chart) \<and>
        dd_get raw_chart START = [[(0, 2, 0, 2)]] \<and>
        closed (cfg_env g_chain ''S'') (0, 2, 0, 2)"
proof -
  obtain c where run: "parse (cfg_env g_chain ''S'') (Some [''b'', ''x'']) None = Some (Inr c)"
    and goal: "dd_get c START = [[(0, 2, 0, 2)]]"
    using that [of "chart (projr (the (parse_state (cfg_env g_chain ''S'') (Some [''b'', ''x'']) None)))"]
    by (simp add: parse_def run_chain dd_get_def)
  from goal_productions_single_closed [OF run] goal
  have "closed (cfg_env g_chain ''S'') (0, 2, 0, 2)" by simp
  with run goal show ?thesis by blast
qed

section \<open>The memo of attempted completions\<close>

text \<open>
  Claim C3. Within one call of \<open>parse\<close>, \<open>can_complete\<close> is evaluated at most once on each
  ordered pair of an open item and a completed candidate, whatever the number of times
  the items are put back on the agenda: the list of the pairs on which it was called has
  no repetition, and each of them is in the memo \<open>attempted\<close>, where line 154 records it
  before line 155 calls the predicate.
\<close>

theorem can_complete_evaluated_at_most_once:
  assumes "parse_state env string graph = Some (Inr st)"
  shows "distinct (evaluated st) \<and> set (evaluated st) \<subseteq> set (attempted st)"
  using evaluated_invariant [OF assms] .

theorem can_complete_evaluated_at_most_once_witness:
  "\<exists>st. parse_state (cfg_env g_pair ''S'') (Some [''a'', ''a'']) None = Some (Inr st) \<and>
        length (evaluated st) = 6 \<and> distinct (evaluated st)"
proof -
  obtain st where run: "parse_state (cfg_env g_pair ''S'') (Some [''a'', ''a'']) None = Some (Inr st)"
    and n: "length (evaluated st) = 6"
    using that [OF run_pair] by simp
  from can_complete_evaluated_at_most_once [OF run] have "distinct (evaluated st)" by simp
  with run n show ?thesis by blast
qed

section \<open>Ordinary parse failure\<close>

lemma run_sync:
  "parse_state sync_env (Some [''a'', ''b'']) (Some [7]) =
   Some (Inr \<lparr>chart = [(Item 1, [[0]]), (Item 2, [[1]]), (Item 4, [[2, 3]])],
          queue = [], pending = [], attempted = [(2, 3)],
          visited = [0, 3, 1, 2, 4],
          nonterminal_lookup = [(''A'', [3]), (''S'', [4])],
          reverse_lookup = [(''A'', [2])],
          success = False, evaluated = [(2, 3)]\<rparr>)"
  by code_simp

lemma run_sync_no_goal:
  "list_all (\<lambda>item. \<not> (closed sync_env item \<and>
       successful_parse sync_env (Some [''a'', ''b'']) (Some [7]) item
         (string_size (Some [''a'', ''b''])) (graph_size sync_env (Some [7]))))
     [0, 3, 1, 2, 4]"
  by code_simp

lemma sync_hypotheses:
  "truthy_string (Some [''a'', ''b'']) \<and> truthy_graph sync_env (Some [7])"
  "distinct (map (axiom sync_env (axiom_class_of sync_env (Some [''a'', ''b'']) (Some [7])))
     (grammar_values sync_env))"
  "list_all (\<lambda>r. axiom sync_env (axiom_class_of sync_env (Some [''a'', ''b'']) (Some [7])) r
        \<in> set [0, 1, 2, 3, 4] \<and>
      (closed sync_env (axiom sync_env (axiom_class_of sync_env (Some [''a'', ''b'']) (Some [7])) r)
       \<longrightarrow> \<not> outside_is_nonterminal sync_env
             (axiom sync_env (axiom_class_of sync_env (Some [''a'', ''b'']) (Some [7])) r)))
     (grammar_values sync_env)"
  "list_all (\<lambda>i. list_all (\<lambda>oitem. \<not> closed sync_env i \<longrightarrow>
        outside_is_nonterminal sync_env i \<longrightarrow> can_complete sync_env i oitem \<longrightarrow>
        complete sync_env i oitem \<in> set [0, 1, 2, 3, 4]) [0, 1, 2, 3, 4]) [0, 1, 2, 3, 4]"
  "list_all (\<lambda>i. \<not> closed sync_env i \<longrightarrow> \<not> outside_is_nonterminal sync_env i \<longrightarrow>
        outside_word_is_nonterminal sync_env i \<longrightarrow> \<not> outside_edge_is_nonterminal sync_env i)
     [0, 1, 2, 3, 4]"
  "list_all (\<lambda>i. \<not> closed sync_env i \<longrightarrow> \<not> outside_is_nonterminal sync_env i \<longrightarrow>
        (case shift_items sync_env (Some [''a'', ''b'']) (Some [7]) i of Inl e \<Rightarrow> True
         | Inr ns \<Rightarrow> set ns \<subseteq> set [0, 1, 2, 3, 4])) [0, 1, 2, 3, 4]"
  by code_simp+

text \<open>
  Claim C2, as amended. Take a non-empty string or a non-empty graph, and a finite list
  of items that holds the axioms, pairwise distinct and none both closed and waiting for
  a nonterminal, and that is closed under \<open>complete\<close> and under the shifts of this input;
  in a synchronous parse, let every open item of the list that reaches the shift branch
  with a nonterminal next on the string side pass the assertion of line 173. Then
  \<open>parse\<close> ends and raises no error: it returns the raw chart. When no item taken from
  the agenda is closed and passes the goal test, no production is recorded under the
  goal key, and \<open>cky_chart\<close> returns the empty forest for that chart, without an
  exception.
\<close>

theorem parse_failure_is_not_an_error:
  assumes nonempty: "truthy_string string \<or> truthy_graph env graph"
    and axioms: "distinct (map (axiom env (axiom_class_of env string graph)) (grammar_values env))"
    and axioms_in: "\<forall>r \<in> set (grammar_values env).
           axiom env (axiom_class_of env string graph) r \<in> set items \<and>
           (closed env (axiom env (axiom_class_of env string graph) r) \<longrightarrow>
            \<not> outside_is_nonterminal env (axiom env (axiom_class_of env string graph) r))"
    and complete_in: "\<forall>i \<in> set items. \<forall>oitem \<in> set items.
           \<not> closed env i \<longrightarrow> outside_is_nonterminal env i \<longrightarrow>
           can_complete env i oitem \<longrightarrow> complete env i oitem \<in> set items"
    and line_173: "truthy_string string \<and> truthy_graph env graph \<longrightarrow>
           (\<forall>i \<in> set items. \<not> closed env i \<longrightarrow> \<not> outside_is_nonterminal env i \<longrightarrow>
              outside_word_is_nonterminal env i \<longrightarrow> \<not> outside_edge_is_nonterminal env i)"
    and shift_in: "\<forall>i \<in> set items. \<not> closed env i \<longrightarrow> \<not> outside_is_nonterminal env i \<longrightarrow>
           (case shift_items env string graph i of Inl e \<Rightarrow> True
            | Inr ns \<Rightarrow> set ns \<subseteq> set items)"
  shows "\<exists>st. parse_state env string graph = Some (Inr st) \<and>
     parse env string graph = Some (Inr (chart st)) \<and>
     ((\<forall>item \<in> set (visited st). \<not> (closed env item \<and>
           successful_parse env string graph item (string_size string) (graph_size env graph)))
      \<longrightarrow> dd_get (chart st) START = [] \<and> cky_chart env (chart st) = Some (Inr []))"
proof -
  from parse_state_returns [OF assms] obtain st where
    run: "parse_state env string graph = Some (Inr st)" by blast
  then have ret: "parse env string graph = Some (Inr (chart st))"
    by (simp add: parse_def)
  have "dd_get (chart st) START = [] \<and> cky_chart env (chart st) = Some (Inr [])"
    if none: "\<forall>item \<in> set (visited st). \<not> (closed env item \<and>
           successful_parse env string graph item (string_size string) (graph_size env graph))"
  proof -
    from goal_invariant [OF run] none
    have "\<forall>p. p \<notin> set (dd_get (chart st) START)" by blast
    then have empty: "dd_get (chart st) START = []"
      by (metis list.set_intros(1) neq_Nil_conv)
    with cky_chart_no_goal [OF empty] show ?thesis by simp
  qed
  with run ret show ?thesis by blast
qed

text \<open>
  The synchronous table on the string \<open>a b\<close> and the graph of one edge: the parse ends
  without the goal, as the closed item of \<open>S\<close> spans one word of two. Item \<open>1\<close> reaches the
  assertion of line 173 and passes it; item \<open>2\<close> has a nonterminal next on both sides
  and never reaches it.
\<close>

theorem parse_failure_is_not_an_error_witness:
  "\<exists>st. parse_state sync_env (Some [''a'', ''b'']) (Some [7]) = Some (Inr st) \<and>
        parse sync_env (Some [''a'', ''b'']) (Some [7]) = Some (Inr (chart st)) \<and>
        dd_get (chart st) START = [] \<and>
        cky_chart sync_env (chart st) = Some (Inr []) \<and>
        (\<exists>i \<in> set [0, 1, 2, 3, 4]. \<not> closed sync_env i \<and> \<not> outside_is_nonterminal sync_env i \<and>
           outside_word_is_nonterminal sync_env i) \<and>
        (\<exists>i \<in> set [0, 1, 2, 3, 4]. outside_word_is_nonterminal sync_env i \<and>
           outside_edge_is_nonterminal sync_env i)"
proof -
  let ?s = "Some [''a'', ''b'']" and ?g = "Some [7 :: nat]" and ?items = "[0, 1, 2, 3, 4 :: nat]"
  note h = sync_hypotheses [unfolded list_all_iff]
  from h(1) have h1: "truthy_string ?s \<or> truthy_graph sync_env ?g" by blast
  have h5: "truthy_string ?s \<and> truthy_graph sync_env ?g \<longrightarrow>
           (\<forall>i \<in> set ?items. \<not> closed sync_env i \<longrightarrow> \<not> outside_is_nonterminal sync_env i \<longrightarrow>
              outside_word_is_nonterminal sync_env i \<longrightarrow> \<not> outside_edge_is_nonterminal sync_env i)"
    using h(5) by blast
  from parse_failure_is_not_an_error [OF h1 h(2) h(3) h(4) h5 h(6)] obtain st where
    st: "parse_state sync_env ?s ?g = Some (Inr st)"
      "parse sync_env ?s ?g = Some (Inr (chart st))"
      "(\<forall>item \<in> set (visited st). \<not> (closed sync_env item \<and>
           successful_parse sync_env ?s ?g item (string_size ?s) (graph_size sync_env ?g)))
      \<longrightarrow> dd_get (chart st) START = [] \<and> cky_chart sync_env (chart st) = Some (Inr [])"
    by blast
  from st(1) have "Some (Inr st) = parse_state sync_env ?s ?g" by simp
  then have "visited st = [0, 3, 1, 2, 4]"
    unfolding run_sync by (simp only: option.inject sum.inject) simp
  with run_sync_no_goal have "\<forall>item \<in> set (visited st). \<not> (closed sync_env item \<and>
           successful_parse sync_env ?s ?g item (string_size ?s) (graph_size sync_env ?g))"
    unfolding list_all_iff by simp
  with st(3) have empty: "dd_get (chart st) START = [] \<and>
      cky_chart sync_env (chart st) = Some (Inr [])" by blast
  have e1: "\<exists>i \<in> set ?items. \<not> closed sync_env i \<and> \<not> outside_is_nonterminal sync_env i \<and>
           outside_word_is_nonterminal sync_env i"
    by (simp add: sync_env_def)
  have e2: "\<exists>i \<in> set ?items. outside_word_is_nonterminal sync_env i \<and>
           outside_edge_is_nonterminal sync_env i"
    by (simp add: sync_env_def)
  from st(1,2) empty e1 e2 show ?thesis by blast
qed

text \<open>
  Claim C2 as stated fails: \<open>parse\<close> can raise on an input for which no item passes the
  goal test. Called with neither a string nor a graph, on the grammar \<open>A \<rightarrow> a\<close>, it takes
  the axiom from the agenda, reaches the shift branch and fails the assertion of line
  182.
\<close>

theorem parse_without_input_raises:
  "parse (cfg_env g_word ''A'') None None = Some (Inl AssertionError) \<and>
   \<not> successful_parse (cfg_env g_word ''A'') (None :: string list option) None (0, 0, 0, 0)
       (string_size (None :: string list option)) (graph_size (cfg_env g_word ''A'') None)"
  by code_simp


section \<open>The empty string\<close>

text \<open>
  Claim C8. The empty string is false in lines 68 to 79, so \<open>parse\<close> builds the axioms of
  the graph class, and on the grammar \<open>A \<rightarrow> a\<close>, which has no epsilon rule, the shift
  branch fails the assertion of line 182: the call raises where the claim expects an
  ordinary parse failure.
\<close>

theorem empty_string_raises:
  "axiom_class_of (cfg_env g_word ''A'') (Some []) None = HergItem \<and>
   parse (cfg_env g_word ''A'') (Some []) None = Some (Inl AssertionError)"
  by code_simp

section \<open>The keys of the pruned chart\<close>

lemma chain_chart_extraction:
  "cky_chart (cfg_env g_chain ''S'') chain_chart =
     Some (Inr [(START, [(StartLabel, [(0, 2, 0, 2)])]),
                (Item (0, 2, 0, 2), [(SlotLabel ''A'' 0, [(1, 1, 0, 1)])]),
                (Item (1, 1, 0, 1), [(SlotLabel ''B'' 0, [(2, 1, 0, 1)])])])"
  by code_simp

text \<open>
  Claim C4, as amended. When \<open>cky_chart\<close> returns, the keys of the pruned chart are the
  keys reached from the goal key through the antecedents of every key reached, closed
  or not, that are the goal key or a closed item and whose walk gives at least one
  grouped production. So an item that is not closed is never a key, a key whose
  regrouped productions are empty is dropped, and the goal key itself is a key only when
  it has a production.
\<close>

theorem pruned_chart_keys:
  assumes "cky_chart env raw_chart = Some (Inr cky)"
  shows "fst ` set cky =
     {k \<in> reached raw_chart. (k = START \<or> closed env (the_item k)) \<and>
        (\<exists>rp. walk env raw_chart k [] = Some (Inr rp) \<and> rp \<noteq> [])}"
proof -
  from assms obtain visit_items where v: "visit raw_chart [START] [] = Some visit_items"
    and r: "regroup env raw_chart visit_items [] = Some (Inr cky)"
    by (auto simp: cky_chart_def split: option.splits)
  from regroup_keys [OF r] visit_reached [OF v] show ?thesis by simp
qed

theorem pruned_chart_keys_witness:
  "cky_chart (cfg_env g_chain ''S'') chain_chart =
     Some (Inr [(START, [(StartLabel, [(0, 2, 0, 2)])]),
                (Item (0, 2, 0, 2), [(SlotLabel ''A'' 0, [(1, 1, 0, 1)])]),
                (Item (1, 1, 0, 1), [(SlotLabel ''B'' 0, [(2, 1, 0, 1)])])]) \<and>
   Item (1, 1, 0, 1) \<in> reached chain_chart"
proof -
  note keys = pruned_chart_keys [OF chain_chart_extraction]
  have "Item (1, 1, 0, 1) \<in> {k \<in> reached chain_chart.
          (k = START \<or> closed (cfg_env g_chain ''S'') (the_item k)) \<and>
          (\<exists>rp. walk (cfg_env g_chain ''S'') chain_chart k [] = Some (Inr rp) \<and> rp \<noteq> [])}"
    unfolding keys [symmetric] by simp
  then have r: "Item (1, 1, 0, 1) \<in> reached chain_chart" by blast
  from chain_chart_extraction r show ?thesis by (rule conjI)
qed

text \<open>
  Claim C4 as stated fails: the traversal of lines 234 to 241 pushes the antecedents of
  every item it pops, not only those of the goal key and of closed items. In the raw
  chart of \<open>g_chain\<close> on \<open>b x\<close> the closed item \<open>(1, 1, 0, 1)\<close> is an antecedent of the open
  item \<open>(0, 1, 0, 1)\<close> only; it is a key of the pruned chart, and the traversal that
  pushes for the goal key and closed items only does not reach it.
\<close>

theorem closed_item_reached_through_open_item:
  "parse (cfg_env g_chain ''S'') (Some [''b'', ''x'']) None = Some (Inr chain_chart) \<and>
   cky_chart (cfg_env g_chain ''S'') chain_chart =
     Some (Inr [(START, [(StartLabel, [(0, 2, 0, 2)])]),
                (Item (0, 2, 0, 2), [(SlotLabel ''A'' 0, [(1, 1, 0, 1)])]),
                (Item (1, 1, 0, 1), [(SlotLabel ''B'' 0, [(2, 1, 0, 1)])])]) \<and>
   visit_closed_only (cfg_env g_chain ''S'') chain_chart [START] [] =
     Some [START, Item (0, 2, 0, 2), Item (0, 1, 0, 1)] \<and>
   \<not> closed (cfg_env g_chain ''S'') (0, 1, 0, 1)"
  by code_simp

section \<open>Binary productions\<close>




section \<open>The arity of a chain\<close>

text \<open>
  Claim C6, as amended. When the walk reaches the sanity check of lines 273 to 285, on
  an item that has productions and is not a \<open>PARTIAL\<close> marker, and the productions have
  different numbers of antecedents or all the same number other than 1 or 2, the walk
  stops with an exception: the \<open>IndexError\<close> of line 273 when a production has no
  antecedent, an assertion failure otherwise. So a walk that returns has met, at this
  check, only groups of productions of arity 1 or of arity 2.
\<close>

theorem bad_arity_aborts:
  assumes "dd_get raw_chart (Item p) \<noteq> []"
    and "rule_symbol env p \<noteq> ''PARTIAL''"
    and "\<not> (\<exists>n \<in> {1, 2}. \<forall>x \<in> set (dd_get raw_chart (Item p)). length x = n)"
  shows "walk env raw_chart (Item p) rp =
     Some (Inl (if [] \<in> set (dd_get raw_chart (Item p)) then IndexError else AssertionError))"
  using walk_bad_arity [OF assms] .

theorem bad_arity_aborts_witness:
  "walk (cfg_env g_word ''A'') mixed_chart (Item (0, 1, 0, 1)) [] = Some (Inl AssertionError)"
proof -
  have prods: "dd_get mixed_chart (Item (0, 1, 0, 1)) =
      [[(0, 0, 0, 0)], [(0, 0, 0, 0), (0, 0, 0, 0)]]"
    by code_simp
  have h1: "dd_get mixed_chart (Item (0, 1, 0, 1)) \<noteq> []" unfolding prods by simp
  have h2: "rule_symbol (cfg_env g_word ''A'') (0, 1, 0, 1) \<noteq> ''PARTIAL''" by code_simp
  have h3: "\<not> (\<exists>n \<in> {1, 2}. \<forall>x \<in> set (dd_get mixed_chart (Item (0, 1, 0, 1))). length x = n)"
    unfolding prods by simp
  from bad_arity_aborts [OF h1 h2 h3, of "[]"] show ?thesis unfolding prods by simp
qed

text \<open>
  Claim C6 as stated fails on a production without antecedent: on an item that is not a
  marker, line 273 raises an \<open>IndexError\<close> before the assertions are reached, and on a
  \<open>PARTIAL\<close> marker lines 264 to 269 end the walk before the check, so that \<open>cky_chart\<close>
  returns.
\<close>

theorem empty_production_not_an_assertion_failure:
  "walk (cfg_env g_word ''A'') empty_production_chart (Item (0, 1, 0, 1)) [] =
     Some (Inl IndexError) \<and>
   cky_chart (cfg_env g_partial ''PARTIAL'') empty_production_chart =
     Some (Inr [(START, [(StartLabel, [(0, 1, 0, 1)])])])"
  by code_simp

section \<open>The \<open>PARTIAL\<close> marker\<close>

text \<open>
  Claim C7. On the raw chart of the grammar \<open>PARTIAL \<rightarrow> a\<close> and the string \<open>a\<close>, the walk
  reaches a closed item whose rule symbol is \<open>PARTIAL\<close> and which has one production;
  line 268 calls \<open>append\<close> on the dictionary \<open>real_productions\<close>, and \<open>cky_chart\<close> raises
  an \<open>AttributeError\<close> where the claim expects the production to be exposed.
\<close>

theorem partial_marker_raises:
  "parse (cfg_env g_partial ''PARTIAL'') (Some [''a'']) None = Some (Inr partial_chart) \<and>
   rule_symbol (cfg_env g_partial ''PARTIAL'') (0, 1, 0, 1) = ''PARTIAL'' \<and>
   cky_chart (cfg_env g_partial ''PARTIAL'') partial_chart = Some (Inl AttributeError)"
  by code_simp

section \<open>The generator over strings\<close>

text \<open>
  Claim C9. \<open>parse_strings\<close> yields nothing: line 43 raises a \<open>NameError\<close> when the
  generator is first read, whatever the strings.
\<close>

theorem parse_strings_raises:
  "parse_strings env string_iterator = ([], Raised NameError)"
  by (simp add: parse_strings_def make_string_filter_cache_def)

end
